theory Spec2Isabelle
  imports Main "HOL-Library.Word"
begin

section \<open>Go values used by the downloader\<close>

text \<open>
  The theory embeds \<^verbatim>\<open>feature/s3/transfermanager/api_op_DownloadObject.go\<close>.
  Go's \<^verbatim>\<open>int64\<close> and \<^verbatim>\<open>int32\<close> are words (arithmetic wraps, comparisons are signed);
  Go's \<^verbatim>\<open>int\<close> (the retry and concurrency options, only counted and compared) is
  \<^typ>\<open>int\<close>. A pointer field is an \<^typ>\<open>'a option\<close>, \<^verbatim>\<open>nil\<close> being \<^term>\<open>None\<close>.
\<close>

type_synonym int64 = "64 word"
type_synonym int32 = "32 word"

text \<open>
  Errors: the two \<^verbatim>\<open>fmt.Errorf\<close> forms of the file, the \<^verbatim>\<open>*strconv.NumError\<close> of
  \<^verbatim>\<open>strconv.ParseInt\<close> (input and reason), an error returned by the \<^verbatim>\<open>GetObject\<close> call,
  and \<^verbatim>\<open>&errReadingBody{err: err}\<close> around the error of \<^verbatim>\<open>io.Copy\<close>.
\<close>

datatype error =
    Errorf string
  | Wrapf string error
  | NumError string string
  | APIError string
  | errReadingBody string

text \<open>Run-time panics of the Go code that the model keeps as values.\<close>

datatype panic = IndexOutOfRange | NilDereference | MakeChanSize

text \<open>\<^verbatim>\<open>xs[i]\<close>: Go panics when the index is out of range.\<close>

definition index :: "'a list \<Rightarrow> nat \<Rightarrow> panic + 'a" where
  "index xs i = (if i < length xs then Inr (xs ! i) else Inl IndexOutOfRange)"

text \<open>
  \<^verbatim>\<open>strings.Split(s, sep)\<close> for a separator of one byte (the file splits on
  \<^verbatim>\<open>"="\<close>, \<^verbatim>\<open>"-"\<close> and \<^verbatim>\<open>"/"\<close> only): the pieces between the separators, one
  piece (the whole string) when there is none.
\<close>

fun Split :: "string \<Rightarrow> char \<Rightarrow> string list" where
  "Split [] sep = [[]]"
| "Split (c # cs) sep =
     (if c = sep then [] # Split cs sep
      else (case Split cs sep of [] \<Rightarrow> [[c]] | p # ps \<Rightarrow> (c # p) # ps))"

text \<open>
  \<^verbatim>\<open>strconv.ParseUint(s, 10, 64)\<close> and \<^verbatim>\<open>strconv.ParseInt(s, 10, 64)\<close>, with the
  reason of the \<^verbatim>\<open>NumError\<close>. \<^verbatim>\<open>ParseUint\<close> reads the bytes from left to right: a byte
  that is no decimal digit is a syntax error; before a digit is added, a number
  already at the cutoff \<open>(2 ^ 64 - 1) div 10 + 1\<close>, or a sum beyond \<open>2 ^ 64 - 1\<close>, is
  a range error, so digits that overflow are reported before a later byte that is no
  digit. \<^verbatim>\<open>ParseInt\<close> takes an optional sign, passes both errors on, and adds the
  range error of int64.
\<close>

definition digit :: "char \<Rightarrow> nat option" where
  "digit c = (let n = (of_char c :: nat) in if 48 \<le> n \<and> n \<le> 57 then Some (n - 48) else None)"

fun parseDigits :: "string \<Rightarrow> nat \<Rightarrow> string + nat" where
  "parseDigits [] n = Inr n"
| "parseDigits (c # cs) n =
     (case digit c of
        None \<Rightarrow> Inl ''invalid syntax''
      | Some v \<Rightarrow>
          if 1844674407370955162 \<le> n then Inl ''value out of range''
          else if 18446744073709551615 < n * 10 + v then Inl ''value out of range''
          else parseDigits cs (n * 10 + v))"

definition ParseUint :: "string \<Rightarrow> string + nat" where
  "ParseUint s = (if s = [] then Inl ''invalid syntax'' else parseDigits s 0)"

definition ParseInt :: "string \<Rightarrow> error + int64" where
  "ParseInt s =
     (if s = [] then Inl (NumError s ''invalid syntax'')
      else
        let neg = (hd s = CHR ''-'');
            body = (if hd s = CHR ''+'' \<or> hd s = CHR ''-'' then tl s else s)
        in case ParseUint body of
             Inl reason \<Rightarrow> Inl (NumError s reason)
           | Inr un \<Rightarrow>
               if \<not> neg \<and> 2 ^ 63 \<le> un then Inl (NumError s ''value out of range'')
               else if neg \<and> 2 ^ 63 < un then Inl (NumError s ''value out of range'')
               else Inr (if neg then - of_nat un else of_nat un))"

text \<open>The verb \<^verbatim>\<open>%d\<close> of \<^verbatim>\<open>fmt.Sprintf\<close> on an int64: signed decimal.\<close>

fun digits :: "nat \<Rightarrow> string" where
  "digits n =
     (if n < 10 then [''0123456789'' ! n]
      else digits (n div 10) @ [''0123456789'' ! (n mod 10)])"

declare digits.simps [simp del]

definition fmt_d :: "int64 \<Rightarrow> string" where
  "fmt_d x = (if sint x < 0 then CHR ''-'' # digits (nat (- sint x)) else digits (nat (sint x)))"

text \<open>\<^verbatim>\<open>fmt.Sprintf("bytes=%d-%d", a, b)\<close>.\<close>

definition Sprintf_bytes :: "int64 \<Rightarrow> int64 \<Rightarrow> string" where
  "Sprintf_bytes a b = ''bytes='' @ fmt_d a @ ''-'' @ fmt_d b"

text \<open>
  \<^verbatim>\<open>float64(x)\<close> for an int64: the nearest number with a significand of 53 bits, ties
  to the even significand. The result is always an integer, so the model keeps it as
  an \<^typ>\<open>int\<close>; \<^verbatim>\<open>math.Min\<close> of two such numbers is their minimum.
\<close>

fun bitlen :: "nat \<Rightarrow> nat" where
  "bitlen n = (if n = 0 then 0 else bitlen (n div 2) + 1)"

declare bitlen.simps [simp del]

definition float64 :: "int64 \<Rightarrow> int" where
  "float64 x =
     (let v = sint x;
          a = nat \<bar>v\<bar>;
          e = bitlen a - 53;
          q = a div 2 ^ e;
          r = a mod 2 ^ e;
          q' = (if 2 ^ e < 2 * r \<or> (2 * r = 2 ^ e \<and> odd q) then q + 1 else q)
      in sgn v * int (q' * 2 ^ e))"

text \<open>
  \<^verbatim>\<open>int64(f)\<close> for a float64 with an integer value. Inside int64 the conversion is
  exact. The one value outside that the rounding above can produce is \<open>2 ^ 63\<close>, where
  Go leaves the result to the implementation; the model gives what amd64 gives there,
  the minimal int64.
\<close>

definition int64_of_float :: "int \<Rightarrow> int64" where
  "int64_of_float f = word_of_int f"

text \<open>\<^verbatim>\<open>aws.ToString\<close>, \<^verbatim>\<open>aws.ToInt64\<close>, \<^verbatim>\<open>aws.ToInt32\<close>: the zero value for \<^verbatim>\<open>nil\<close>.\<close>

definition ToString :: "string option \<Rightarrow> string" where
  "ToString p = (case p of None \<Rightarrow> [] | Some s \<Rightarrow> s)"

definition ToInt64 :: "int64 option \<Rightarrow> int64" where
  "ToInt64 p = (case p of None \<Rightarrow> 0 | Some v \<Rightarrow> v)"

definition ToInt32 :: "int32 option \<Rightarrow> int32" where
  "ToInt32 p = (case p of None \<Rightarrow> 0 | Some v \<Rightarrow> v)"

text \<open>
  Modelled from the spec: \<^verbatim>\<open>nzstring\<close> is a helper of the package that is not in this
  file. The request is "not already pinned to a specific object version" exactly when
  the input's version field is empty, so the helper gives \<^verbatim>\<open>nil\<close> for the empty
  string and a pointer to the string otherwise.
\<close>

definition nzstring :: "string \<Rightarrow> string option" where
  "nzstring v = (if v = [] then None else Some v)"

section \<open>Requests, responses and options\<close>

text \<open>
  \<^verbatim>\<open>DownloadObjectInput\<close>. The destination \<^verbatim>\<open>WriterAt\<close>, the four \<^verbatim>\<open>time.Time\<close>
  conditions and the six \<^verbatim>\<open>Response...\<close> overrides are left out: they are passed through
  to the request unchanged and no function below branches on them.
\<close>

record DownloadObjectInput =
  Bucket :: string
  Key :: string
  ChecksumMode :: string
  ExpectedBucketOwner :: string
  IfMatch :: string
  IfNoneMatch :: string
  PartNumber :: int32
  Range :: string
  RequestPayer :: string
  SSECustomerAlgorithm :: string
  SSECustomerKey :: string
  SSECustomerKeyMD5 :: string
  VersionID :: string

text \<open>\<^verbatim>\<open>s3.GetObjectInput\<close>, the request of one \<^verbatim>\<open>GetObject\<close> call (fields prefixed \<open>p\<close>).\<close>

record GetObjectInput =
  pBucket :: "string option"
  pKey :: "string option"
  pChecksumMode :: string
  pRequestPayer :: string
  pExpectedBucketOwner :: "string option"
  pIfMatch :: "string option"
  pIfNoneMatch :: "string option"
  pSSECustomerAlgorithm :: "string option"
  pSSECustomerKey :: "string option"
  pSSECustomerKeyMD5 :: "string option"
  pVersionId :: "string option"
  pPartNumber :: "int32 option"
  pRange :: "string option"

text \<open>
  \<^verbatim>\<open>s3.GetObjectOutput\<close>, the response (fields prefixed \<open>r\<close>), with the metadata the
  downloader reads and two representative pass-through fields. The body stream and the
  destination are collaborators outside the file: \<open>rBody\<close> is what
  \<^verbatim>\<open>io.Copy(chunk, out.Body)\<close> returns for this response, the number of bytes copied
  and the error that ended the copy, if any.
\<close>

record GetObjectOutput =
  rContentLength :: "int64 option"
  rContentRange :: "string option"
  rETag :: "string option"
  rPartsCount :: "int32 option"
  rContentType :: "string option"
  rVersionId :: "string option"
  rBody :: "int64 \<times> string option"

text \<open>\<^verbatim>\<open>DownloadObjectOutput\<close>, with the fields that correspond to the response above.\<close>

record DownloadObjectOutput =
  ContentLength :: int64
  ContentRange :: string
  ETag :: string
  PartsCount :: int32
  ContentType :: string
  VersionID_out :: string
  ChecksumMode_out :: string

datatype GetObjectType = GetObjectRanges | GetObjectParts

record Options =
  PartSizeBytes :: int64
  Concurrency :: int
  PartBodyMaxRetries :: int
  GetObjectType :: GetObjectType
  DisableChecksumValidation :: bool

text \<open>
  The S3 client \<^verbatim>\<open>d.options.S3\<close>: the answer to the \<open>k\<close>-th \<^verbatim>\<open>GetObject\<close> call of the
  download (counted from 0) with the given request, the call's error or the response.
  The call's error is a label, recorded as \<^term>\<open>APIError\<close>: the unexported
  \<^verbatim>\<open>errReadingBody\<close> is only ever made by \<^verbatim>\<open>tryDownloadChunk\<close>.
\<close>

type_synonym client = "nat \<Rightarrow> GetObjectInput \<Rightarrow> string + GetObjectOutput"

record dlChunk =
  start :: int64
  cur :: int64
  part :: int32
  withRange :: string

text \<open>
  The \<^verbatim>\<open>downloader\<close>. A \<^verbatim>\<open>sync.Once\<close> is the flag "already done". The field \<open>calls\<close>
  is not in the source: it logs the request of every \<^verbatim>\<open>GetObject\<close> call, in order.
\<close>

record downloader =
  options :: Options
  inp :: DownloadObjectInput
  out :: "DownloadObjectOutput option"
  etagOnce :: bool
  totalBytesOnce :: bool
  offset :: int64
  pos :: int64
  totalBytes :: int64
  written :: int64
  etag :: string
  err :: "error option"
  calls :: "GetObjectInput list"

section \<open>The functions of the file\<close>

definition mapGetObjectInput :: "DownloadObjectInput \<Rightarrow> bool \<Rightarrow> GetObjectInput" where
  "mapGetObjectInput i enableChecksumValidation =
     \<lparr> pBucket = Some (Bucket i),
       pKey = Some (Key i),
       pChecksumMode =
         (if ChecksumMode i \<noteq> [] then ChecksumMode i
          else if enableChecksumValidation then ''ENABLED'' else []),
       pRequestPayer = (if RequestPayer i \<noteq> [] then RequestPayer i else []),
       pExpectedBucketOwner = nzstring (ExpectedBucketOwner i),
       pIfMatch = nzstring (IfMatch i),
       pIfNoneMatch = nzstring (IfNoneMatch i),
       pSSECustomerAlgorithm = nzstring (SSECustomerAlgorithm i),
       pSSECustomerKey = nzstring (SSECustomerKey i),
       pSSECustomerKeyMD5 = nzstring (SSECustomerKeyMD5 i),
       pVersionId = nzstring (VersionID i),
       pPartNumber = None,
       pRange = None \<rparr>"

definition mapFromGetObjectOutput :: "GetObjectOutput \<Rightarrow> string \<Rightarrow> DownloadObjectOutput" where
  "mapFromGetObjectOutput resp checksumMode =
     \<lparr> ContentLength = ToInt64 (rContentLength resp),
       ContentRange = ToString (rContentRange resp),
       ETag = ToString (rETag resp),
       PartsCount = ToInt32 (rPartsCount resp),
       ContentType = ToString (rContentType resp),
       VersionID_out = ToString (rVersionId resp),
       ChecksumMode_out = checksumMode \<rparr>"

text \<open>
  \<^verbatim>\<open>DownloadObject\<close> starts from \<^verbatim>\<open>downloader{in: input, options: ...}\<close>, every other
  field at its zero value.
\<close>

definition new_downloader :: "Options \<Rightarrow> DownloadObjectInput \<Rightarrow> downloader" where
  "new_downloader opts i =
     \<lparr> options = opts, inp = i, out = None, etagOnce = False, totalBytesOnce = False,
       offset = 0, pos = 0, totalBytes = 0, written = 0, etag = [], err = None, calls = [] \<rparr>"

text \<open>
  \<^verbatim>\<open>init\<close>. The constant \<^verbatim>\<open>minPartSizeBytes\<close> is declared elsewhere in the package and
  is a parameter here.
\<close>

definition init :: "int64 \<Rightarrow> downloader \<Rightarrow> error + downloader" where
  "init minPartSizeBytes d =
     (if PartSizeBytes (options d) <s minPartSizeBytes then
        Inl (Errorf (''part size must be at least '' @ fmt_d minPartSizeBytes @ '' bytes''))
      else if PartBodyMaxRetries (options d) < 0 then
        Inl (Errorf ''part body retry must be non-negative'')
      else Inr (d\<lparr>totalBytes := - 1\<rparr>))"

definition incrWritten :: "downloader \<Rightarrow> int64 \<Rightarrow> downloader" where
  "incrWritten d n = d\<lparr>written := written d + n\<rparr>"

definition setErr :: "downloader \<Rightarrow> error \<Rightarrow> downloader" where
  "setErr d e = d\<lparr>err := Some e\<rparr>"

definition setOutput :: "downloader \<Rightarrow> DownloadObjectOutput option \<Rightarrow> downloader" where
  "setOutput d resp = (if out d \<noteq> None then d else d\<lparr>out := resp\<rparr>)"

definition setTotalBytes :: "downloader \<Rightarrow> GetObjectOutput \<Rightarrow> downloader" where
  "setTotalBytes d resp =
     (if 0 \<le>s totalBytes d then d
      else (case rContentRange resp of
              None \<Rightarrow> d\<lparr>totalBytes := ToInt64 (rContentLength resp)\<rparr>
            | Some cr \<Rightarrow>
                (case ParseInt (last (Split cr CHR ''/'')) of
                   Inl e \<Rightarrow> d\<lparr>err := Some e\<rparr>
                 | Inr tot \<Rightarrow> d\<lparr>totalBytes := tot\<rparr>)))"

definition getDownloadRange :: "downloader \<Rightarrow> panic + (downloader \<times> int64 \<times> int64)" where
  "getDownloadRange d =
     (case index (Split (Range (inp d)) CHR ''='') 1 of
        Inl p \<Rightarrow> Inl p
      | Inr s \<Rightarrow>
          (let parts = Split s CHR ''-'' in
           case index parts 0 of
             Inl p \<Rightarrow> Inl p
           | Inr p0 \<Rightarrow>
               (case ParseInt p0 of
                  Inl e \<Rightarrow> Inr (d\<lparr>err := Some e\<rparr>, 0, 0)
                | Inr start_v \<Rightarrow>
                    (case index parts 1 of
                       Inl p \<Rightarrow> Inl p
                     | Inr p1 \<Rightarrow>
                         (case ParseInt p1 of
                            Inl e \<Rightarrow> Inr (d\<lparr>err := Some e\<rparr>, 0, 0)
                          | Inr end_v \<Rightarrow> Inr (d, start_v, end_v + 1))))))"

definition byteRange :: "downloader \<Rightarrow> string" where
  "byteRange d =
     (if 0 \<le>s totalBytes d then
        Sprintf_bytes (pos d)
          (int64_of_float
             (min (float64 (totalBytes d - 1))
                  (float64 (pos d + PartSizeBytes (options d) - 1))))
      else Sprintf_bytes (pos d) (pos d + PartSizeBytes (options d) - 1))"

text \<open>
  \<^verbatim>\<open>tryDownloadChunk\<close>: one \<^verbatim>\<open>GetObject\<close> call, the once-only capture of the total size,
  and the copy of the body into the chunk (\<^verbatim>\<open>dlChunk.Write\<close> advances \<open>cur\<close> by what
  was written). Returns the state, the chunk and the triple \<^verbatim>\<open>(out, n, err)\<close>.
\<close>

definition tryDownloadChunk ::
  "client \<Rightarrow> downloader \<Rightarrow> GetObjectInput \<Rightarrow> dlChunk \<Rightarrow>
     downloader \<times> dlChunk \<times> GetObjectOutput option \<times> int64 \<times> error option" where
  "tryDownloadChunk cl d params chunk =
     (let d1 = d\<lparr>calls := calls d @ [params]\<rparr> in
      case cl (length (calls d)) params of
        Inl e \<Rightarrow> (d1, chunk, None, 0, Some (APIError e))
      | Inr resp \<Rightarrow>
          (let d2 = (if totalBytesOnce d1 then d1
                     else (setTotalBytes d1 resp)\<lparr>totalBytesOnce := True\<rparr>);
               chunk' = chunk\<lparr>cur := cur chunk + fst (rBody resp)\<rparr>
           in case snd (rBody resp) of
                Some e \<Rightarrow> (d2, chunk', None, 0, Some (errReadingBody e))
              | None \<Rightarrow> (d2, chunk', Some resp, fst (rBody resp), None)))"

text \<open>
  The retry loop of \<^verbatim>\<open>downloadChunk\<close>, \<^verbatim>\<open>for retry := 0; retry < PartBodyMaxRetries;
  retry++\<close>, by the number of iterations left. The last argument is the current
  \<^verbatim>\<open>(out, n, err)\<close>. \<^term>\<open>Inl\<close> is the \<^verbatim>\<open>return nil, err\<close> inside the loop, \<^term>\<open>Inr\<close> the
  values with which the loop is left (by \<^verbatim>\<open>break\<close> or by its condition).
\<close>

fun retryLoop ::
  "client \<Rightarrow> GetObjectInput \<Rightarrow> nat \<Rightarrow> downloader \<Rightarrow> dlChunk \<Rightarrow>
     GetObjectOutput option \<times> int64 \<times> error option \<Rightarrow>
     downloader \<times> dlChunk \<times> (error + GetObjectOutput option \<times> int64 \<times> error option)" where
  "retryLoop cl params 0 d chunk acc = (d, chunk, Inr acc)"
| "retryLoop cl params (Suc k) d chunk acc =
     (case tryDownloadChunk cl d params chunk of
        (d', chunk', resp, n, None) \<Rightarrow> (d', chunk', Inr (resp, n, None))
      | (d', chunk', resp, n, Some (errReadingBody b)) \<Rightarrow>
          retryLoop cl params k d' (chunk'\<lparr>cur := 0\<rparr>) (resp, n, Some (errReadingBody b))
      | (d', chunk', resp, n, Some e) \<Rightarrow> (d', chunk', Inl e))"

text \<open>The first lines of \<^verbatim>\<open>downloadChunk\<close>: the request of the chunk.\<close>

definition chunkParams :: "downloader \<Rightarrow> dlChunk \<Rightarrow> GetObjectInput" where
  "chunkParams d chunk =
     (let p0 = mapGetObjectInput (inp d) (\<not> DisableChecksumValidation (options d));
          p1 = (if part chunk \<noteq> 0 then p0\<lparr>pPartNumber := Some (part chunk)\<rparr> else p0);
          p2 = (if withRange chunk \<noteq> [] then p1\<lparr>pRange := Some (withRange chunk)\<rparr> else p1)
      in if pVersionId p2 = None \<and> etag d \<noteq> [] then p2\<lparr>pIfMatch := Some (etag d)\<rparr> else p2)"

text \<open>The rest of \<^verbatim>\<open>downloadChunk\<close>, from the retry loop on.\<close>

definition downloadChunkWith ::
  "client \<Rightarrow> downloader \<Rightarrow> dlChunk \<Rightarrow> GetObjectInput \<Rightarrow>
     downloader \<times> DownloadObjectOutput option \<times> error option" where
  "downloadChunkWith cl d chunk params =
     (case retryLoop cl params (nat (PartBodyMaxRetries (options d))) d chunk (None, 0, None) of
        (d1, chunk1, Inl e) \<Rightarrow> (d1, None, Some e)
      | (d1, chunk1, Inr (resp, n, e)) \<Rightarrow>
          (let d2 = incrWritten d1 n in
           case resp of
             None \<Rightarrow> (d2, None, e)
           | Some r \<Rightarrow>
               ((if etagOnce d2 then d2 else d2\<lparr>etag := ToString (rETag r), etagOnce := True\<rparr>),
                Some (mapFromGetObjectOutput r (pChecksumMode params)), e)))"

definition downloadChunk ::
  "client \<Rightarrow> downloader \<Rightarrow> dlChunk \<Rightarrow>
     downloader \<times> DownloadObjectOutput option \<times> error option" where
  "downloadChunk cl d chunk = downloadChunkWith cl d chunk (chunkParams d chunk)"

text \<open>
  \<^verbatim>\<open>getChunk\<close>. After a chunk without error it reads \<^verbatim>\<open>output.ContentLength\<close>, which
  panics when \<^verbatim>\<open>output\<close> is \<^verbatim>\<open>nil\<close>.
\<close>

definition getChunk ::
  "client \<Rightarrow> downloader \<Rightarrow> int32 \<Rightarrow> string \<Rightarrow>
     downloader \<times> (panic + DownloadObjectOutput option)" where
  "getChunk cl d prt rng =
     (let chunk = \<lparr> start = pos d - offset d, cur = 0, part = prt, withRange = rng \<rparr> in
      case downloadChunk cl d chunk of
        (d1, output, Some e) \<Rightarrow> (setErr d1 e, Inr output)
      | (d1, output, None) \<Rightarrow>
          (let d2 = setOutput d1 output in
           case output of
             None \<Rightarrow> (d2, Inl NilDereference)
           | Some res \<Rightarrow> (d2\<lparr>pos := pos d2 + ContentLength res\<rparr>, Inr output)))"

text \<open>What a call of \<^verbatim>\<open>download\<close> does: it panics, it never returns, or it returns.\<close>

datatype outcome =
    Panic panic
  | Blocked
  | Return "DownloadObjectOutput option" "error option"

definition singleDownload :: "client \<Rightarrow> downloader \<Rightarrow> downloader \<times> outcome" where
  "singleDownload cl d =
     (let chunk = \<lparr> start = 0, cur = 0, part = 0, withRange = [] \<rparr> in
      case downloadChunk cl d chunk of
        (d1, output, Some e) \<Rightarrow> (d1, Return None (Some e))
      | (d1, output, None) \<Rightarrow> (d1, Return output None))"

section \<open>The worker pool\<close>

text \<open>
  The goroutines of the fan-out share the downloader, so their interleaving is part of
  the model: a schedule names, step by step, the goroutine that moves next, and every
  statement about "all runs" quantifies over all schedules.

  The producer is the loop of \<^verbatim>\<open>download\<close> that queues the chunks. In the byte-range
  loop it reads \<^verbatim>\<open>d.getErr()\<close> and compares \<^verbatim>\<open>d.pos\<close> with \<^verbatim>\<open>total\<close>, then sends on the
  channel, which blocks while the buffer is full; these are two steps, since other
  goroutines run between them. The part loop carries its counter \<open>i\<close>.
\<close>

datatype producer =
    RangeLoop
  | RangeSend dlChunk
  | PartLoop int32
  | PartSend int32 dlChunk
  | Waiting

text \<open>
  A worker is \<^verbatim>\<open>downloadPart\<close>: it receives from the channel, and, when no error is
  recorded, downloads the chunk. Receiving (with the look at \<^verbatim>\<open>d.getErr()\<close> and the
  building of the request) is one step, the calls and the recording of the result
  (\<^verbatim>\<open>setErr\<close> or \<^verbatim>\<open>setOutput\<close>) another: a second worker can start a chunk while the
  first one is still downloading.
\<close>

datatype worker = Receiving | Downloading dlChunk GetObjectInput | Exited

text \<open>
  The state of the fan-out: the downloader, the channel \<open>ch\<close> with its buffer and
  whether it is closed, the producer with its locals \<open>total_l\<close> (\<^verbatim>\<open>total\<close>),
  \<open>partSize\<close> and \<open>partsCount\<close> (\<^verbatim>\<open>output.PartsCount\<close>), and the workers. The field
  \<open>sent\<close> is not in the source: it logs every chunk descriptor sent on the channel.
\<close>

record pool =
  dl :: downloader
  ch :: "dlChunk list"
  closed :: bool
  prod :: producer
  workers :: "worker list"
  total_l :: int64
  partSize :: int64
  partsCount :: int32
  sent :: "dlChunk list"

datatype actor = Producer | Worker nat

definition close_ch :: "pool \<Rightarrow> pool" where
  "close_ch s = s\<lparr>closed := True, prod := Waiting\<rparr>"

definition producer_step :: "pool \<Rightarrow> pool" where
  "producer_step s =
     (case prod s of
        RangeLoop \<Rightarrow>
          (if err (dl s) \<noteq> None then close_ch s
           else if total_l s \<le>s pos (dl s) then close_ch s
           else s\<lparr>prod := RangeSend \<lparr> start = pos (dl s) - offset (dl s), cur = 0, part = 0,
                                      withRange = byteRange (dl s) \<rparr>\<rparr>)
      | RangeSend c \<Rightarrow>
          (if int (length (ch s)) < Concurrency (options (dl s)) then
             s\<lparr>ch := ch s @ [c], sent := sent s @ [c],
               dl := (dl s)\<lparr>pos := pos (dl s) + PartSizeBytes (options (dl s))\<rparr>,
               prod := RangeLoop\<rparr>
           else s)
      | PartLoop i \<Rightarrow>
          (if i \<le>s partsCount s then
             (if err (dl s) \<noteq> None then close_ch s
              else s\<lparr>prod := PartSend i \<lparr> start = pos (dl s) - offset (dl s), cur = 0, part = i,
                                          withRange = [] \<rparr>\<rparr>)
           else close_ch s)
      | PartSend i c \<Rightarrow>
          (if int (length (ch s)) < Concurrency (options (dl s)) then
             s\<lparr>ch := ch s @ [c], sent := sent s @ [c],
               dl := (dl s)\<lparr>pos := pos (dl s) + partSize s\<rparr>,
               prod := PartLoop (i + 1)\<rparr>
           else s)
      | Waiting \<Rightarrow> s)"

definition worker_step :: "client \<Rightarrow> nat \<Rightarrow> pool \<Rightarrow> pool" where
  "worker_step cl i s =
     (case workers s ! i of
        Receiving \<Rightarrow>
          (case ch s of
             [] \<Rightarrow> (if closed s then s\<lparr>workers := (workers s)[i := Exited]\<rparr> else s)
           | c # cs \<Rightarrow>
               (if err (dl s) \<noteq> None then s\<lparr>ch := cs\<rparr>
                else s\<lparr>ch := cs,
                       workers := (workers s)[i := Downloading c (chunkParams (dl s) c)]\<rparr>))
      | Downloading c params \<Rightarrow>
          (case downloadChunkWith cl (dl s) c params of
             (d1, output, Some e) \<Rightarrow>
               s\<lparr>dl := setErr d1 e, workers := (workers s)[i := Receiving]\<rparr>
           | (d1, output, None) \<Rightarrow>
               s\<lparr>dl := setOutput d1 output, workers := (workers s)[i := Receiving]\<rparr>)
      | Exited \<Rightarrow> s)"

definition step :: "client \<Rightarrow> actor \<Rightarrow> pool \<Rightarrow> pool" where
  "step cl a s =
     (case a of
        Producer \<Rightarrow> producer_step s
      | Worker i \<Rightarrow> (if i < length (workers s) then worker_step cl i s else s))"

fun run :: "client \<Rightarrow> actor list \<Rightarrow> pool \<Rightarrow> pool" where
  "run cl [] s = s"
| "run cl (a # as) s = run cl as (step cl a s)"

text \<open>\<^verbatim>\<open>d.wg.Wait()\<close> returns once the channel is closed and every worker has left.\<close>

definition finished :: "pool \<Rightarrow> bool" where
  "finished s = (prod s = Waiting \<and> list_all (\<lambda>w. w = Exited) (workers s))"

text \<open>The last lines of \<^verbatim>\<open>download\<close>.\<close>

definition finalize :: "downloader \<Rightarrow> downloader \<times> outcome" where
  "finalize d =
     (case err d of
        Some e \<Rightarrow> (d, Return None (Some e))
      | None \<Rightarrow>
          (case out d of
             None \<Rightarrow> (d, Panic NilDereference)
           | Some res \<Rightarrow>
               (let res' = res\<lparr>ContentLength := written d,
                               ContentRange := Sprintf_bytes (offset d) (totalBytes d - 1)\<rparr>
                in (d\<lparr>out := Some res'\<rparr>, Return (Some res') None))))"

text \<open>
  \<^verbatim>\<open>make(chan dlChunk, Concurrency)\<close> (a panic for a negative size), the start of the
  workers, the producer's loop, \<^verbatim>\<open>close(ch)\<close> and \<^verbatim>\<open>d.wg.Wait()\<close>, under a schedule.
  A schedule that ends before the wait is over gives \<^term>\<open>Blocked\<close>.
\<close>

definition start_pool :: "downloader \<Rightarrow> producer \<Rightarrow> int64 \<Rightarrow> int64 \<Rightarrow> int32 \<Rightarrow> pool" where
  "start_pool d p tot psz pc =
     \<lparr> dl = d, ch = [], closed = False, prod = p,
       workers = replicate (nat (Concurrency (options d))) Receiving,
       total_l = tot, partSize = psz, partsCount = pc, sent = [] \<rparr>"

definition fanOut ::
  "client \<Rightarrow> actor list \<Rightarrow> downloader \<Rightarrow> producer \<Rightarrow> int64 \<Rightarrow> int64 \<Rightarrow> int32 \<Rightarrow>
     downloader \<times> outcome" where
  "fanOut cl sched d p tot psz pc =
     (if Concurrency (options d) < 0 then (d, Panic MakeChanSize)
      else
        (let s = run cl sched (start_pool d p tot psz pc) in
         if finished s then finalize (dl s) else (dl s, Blocked)))"

text \<open>
  \<^verbatim>\<open>download\<close>, with the final state of the downloader beside the outcome. The client
  options of the calls (the user-agent middleware) do not reach the model's client.
\<close>

definition download_parts :: "client \<Rightarrow> actor list \<Rightarrow> downloader \<Rightarrow> downloader \<times> outcome" where
  "download_parts cl sched d =
     (if Range (inp d) \<noteq> [] then singleDownload cl d
      else
        (case getChunk cl d 1 [] of
           (d1, Inl p) \<Rightarrow> (d1, Panic p)
         | (d1, Inr output) \<Rightarrow>
             (if err d1 \<noteq> None then (d1, Return output (err d1))
              else
                (case output of
                   None \<Rightarrow> (d1, Panic NilDereference)
                 | Some res \<Rightarrow>
                     (if 1 <s PartsCount res then
                        fanOut cl sched d1 (PartLoop 2) 0 (ContentLength res) (PartsCount res)
                      else finalize d1)))))"

text \<open>
  The first lines of the byte-range branch: with an explicit \<^verbatim>\<open>Range\<close>, the position,
  the total and the offset come from \<^verbatim>\<open>getDownloadRange\<close>.
\<close>

definition rangeStart :: "downloader \<Rightarrow> panic + downloader" where
  "rangeStart d =
     (if Range (inp d) \<noteq> [] then
        (case getDownloadRange d of
           Inl p \<Rightarrow> Inl p
         | Inr (d', p, t) \<Rightarrow> Inr (d'\<lparr>pos := p, totalBytes := t, offset := p\<rparr>))
      else Inr d)"

definition download_ranges :: "client \<Rightarrow> actor list \<Rightarrow> downloader \<Rightarrow> downloader \<times> outcome" where
  "download_ranges cl sched d =
     (case rangeStart d of
        Inl p \<Rightarrow> (d, Panic p)
      | Inr d0 \<Rightarrow>
          (case getChunk cl d0 0 (byteRange d0) of
             (d1, Inl p) \<Rightarrow> (d1, Panic p)
           | (d1, Inr output) \<Rightarrow> fanOut cl sched d1 RangeLoop (totalBytes d1) 0 0))"

definition download ::
  "client \<Rightarrow> int64 \<Rightarrow> actor list \<Rightarrow> Options \<Rightarrow> DownloadObjectInput \<Rightarrow> downloader \<times> outcome" where
  "download cl minPartSizeBytes sched opts i =
     (case init minPartSizeBytes (new_downloader opts i) of
        Inl e \<Rightarrow>
          (new_downloader opts i, Return None (Some (Wrapf ''unable to initialize download'' e)))
      | Inr d \<Rightarrow>
          (if 0 <s PartNumber (inp d) then singleDownload cl d
           else if GetObjectType (options d) = GetObjectParts then download_parts cl sched d
           else download_ranges cl sched d))"

section \<open>Reference definitions and example inputs\<close>

text \<open>
  The byte range as the specification words it: the upper bound is the exact int64
  minimum of \<open>totalBytes - 1\<close> and \<open>pos + PartSizeBytes - 1\<close> when the total is
  known, and \<open>pos + PartSizeBytes - 1\<close> otherwise (int64 arithmetic throughout).
\<close>

definition byteRange_spec :: "downloader \<Rightarrow> string" where
  "byteRange_spec d =
     (let a = totalBytes d - 1; b = pos d + PartSizeBytes (options d) - 1
      in Sprintf_bytes (pos d) (if 0 \<le>s totalBytes d then (if a \<le>s b then a else b) else b))"

text \<open>Options, an input and a response for the concrete runs below.\<close>

definition ex_options :: Options where
  "ex_options = \<lparr> PartSizeBytes = 8388608, Concurrency = 2, PartBodyMaxRetries = 2,
     GetObjectType = GetObjectRanges, DisableChecksumValidation = False \<rparr>"

definition ex_input :: DownloadObjectInput where
  "ex_input = \<lparr> Bucket = ''bucket'', Key = ''key'', ChecksumMode = [], ExpectedBucketOwner = [],
     IfMatch = [], IfNoneMatch = [], PartNumber = 0, Range = [], RequestPayer = [],
     SSECustomerAlgorithm = [], SSECustomerKey = [], SSECustomerKeyMD5 = [], VersionID = [] \<rparr>"

text \<open>
  A response for bytes 100 to 199 of an object of 1000 bytes; a client whose first call
  answers with a body that breaks off and whose later calls fail; a chunk.
\<close>

definition ex_response :: GetObjectOutput where
  "ex_response = \<lparr> rContentLength = Some 100, rContentRange = Some ''bytes 100-199/1000'',
     rETag = Some ''etag-1'', rPartsCount = None, rContentType = Some ''text/plain'',
     rVersionId = None, rBody = (100, None) \<rparr>"

definition ex_client_retry :: client where
  "ex_client_retry k p =
     (if k = 0 then Inr (ex_response\<lparr>rBody := (40, Some ''unexpected EOF'')\<rparr>)
      else Inl ''SlowDown'')"

definition ex_chunk :: dlChunk where
  "ex_chunk = \<lparr> start = 0, cur = 0, part = 0, withRange = ''bytes=0-8388607'' \<rparr>"

text \<open>
  What the steps of a download keep, as a relation between an earlier and a later state
  of the downloader: the options, the input and the offset stay; an error, once
  recorded, stays recorded (not necessarily the same one); the total, the tag and the
  output stay once their capture has happened. \<open>sending\<close> tells whether the producer
  has passed its check and is about to send.
\<close>

definition stable :: "downloader \<Rightarrow> downloader \<Rightarrow> bool" where
  "stable d d' \<longleftrightarrow>
     options d' = options d \<and> inp d' = inp d \<and> offset d' = offset d \<and>
     (err d \<noteq> None \<longrightarrow> err d' \<noteq> None) \<and>
     (totalBytesOnce d \<longrightarrow> totalBytesOnce d' \<and> totalBytes d' = totalBytes d) \<and>
     (etagOnce d \<longrightarrow> etagOnce d' \<and> etag d' = etag d) \<and>
     (out d \<noteq> None \<longrightarrow> out d' = out d)"


text \<open>
  An object of 32 MiB read in parts of 8 MiB: the first call answers with the first
  part, the second and the third call fail with different errors. \<open>ex_after_probe\<close>
  is the downloader after the first chunk, \<open>ex_pool\<close> the worker pool as
  \<^verbatim>\<open>download\<close> starts it. In \<open>ex_sched1\<close> the producer sends two chunks, both workers
  take one, the producer passes its check for a third chunk, and worker 0 fails; in
  \<open>ex_sched2\<close> the producer sends the third chunk, worker 1 fails, and all leave.
\<close>

definition ex_probe_response :: GetObjectOutput where
  "ex_probe_response = \<lparr> rContentLength = Some 8388608,
     rContentRange = Some ''bytes 0-8388607/33554432'',
     rETag = Some ''etag-1'', rPartsCount = None, rContentType = Some ''text/plain'',
     rVersionId = None, rBody = (8388608, None) \<rparr>"

definition ex_client_two_failures :: client where
  "ex_client_two_failures k p =
     (if k = 0 then Inr ex_probe_response
      else if k = 1 then Inl ''first failure'' else Inl ''second failure'')"

definition ex_after_probe :: downloader where
  "ex_after_probe =
     fst (getChunk ex_client_two_failures ((new_downloader ex_options ex_input)\<lparr>totalBytes := - 1\<rparr>)
            0 ''bytes=0-8388607'')"

definition ex_pool :: pool where
  "ex_pool = start_pool ex_after_probe RangeLoop (totalBytes ex_after_probe) 0 0"

definition ex_sched1 :: "actor list" where
  "ex_sched1 = [Producer, Producer, Producer, Producer, Worker 0, Worker 1, Producer, Worker 0]"

definition ex_sched2 :: "actor list" where
  "ex_sched2 = [Producer, Worker 1, Producer, Worker 0, Worker 0, Worker 1]"

text \<open>
  An object of 16 MiB whose responses carry no entity tag, and a schedule that sends
  and downloads its second chunk.
\<close>

definition ex_client_no_etag :: client where
  "ex_client_no_etag k p =
     Inr (ex_probe_response\<lparr>rETag := None, rContentRange := Some ''bytes 0-8388607/16777216''\<rparr>)"

definition ex_sched_two_chunks :: "actor list" where
  "ex_sched_two_chunks = [Producer, Producer, Worker 0, Worker 0, Producer, Worker 0, Worker 1]"

text \<open>
  For the log of requests: the \<^verbatim>\<open>IfMatch\<close> of a request built for an input without
  version while the tag of the downloader is \<open>tag\<close>; whether a worker is downloading,
  with which request, and how many workers are; and what every run of the pool keeps about the log, in terms
  of the input \<open>i\<close>, the number \<open>k\<close> of calls before the pool started and the tag at
  that moment: the later calls and the requests in flight carry
  \<open>if_match_after i tag\<close>, and either the tag has been captured, or an error is
  recorded, no worker is downloading and no call has been added.
\<close>

definition if_match_after :: "DownloadObjectInput \<Rightarrow> string \<Rightarrow> string option" where
  "if_match_after i tag = (if tag = [] then nzstring (IfMatch i) else Some tag)"

definition downloading :: "worker \<Rightarrow> bool" where
  "downloading w = (case w of Downloading c p \<Rightarrow> True | _ \<Rightarrow> False)"

definition in_flight :: "pool \<Rightarrow> nat" where
  "in_flight s = length (filter downloading (workers s))"

definition request_of :: "worker \<Rightarrow> GetObjectInput option" where
  "request_of w = (case w of Downloading c p \<Rightarrow> Some p | _ \<Rightarrow> None)"

definition log_inv :: "DownloadObjectInput \<Rightarrow> nat \<Rightarrow> string \<Rightarrow> pool \<Rightarrow> bool" where
  "log_inv i k tag s \<longleftrightarrow>
     inp (dl s) = i \<and> k \<le> length (calls (dl s)) \<and> etag (dl s) = tag \<and>
     list_all (\<lambda>r. pIfMatch r = if_match_after i tag) (drop k (calls (dl s))) \<and>
     list_all (\<lambda>w. case request_of w of None \<Rightarrow> True
                    | Some p \<Rightarrow> pIfMatch p = if_match_after i tag) (workers s) \<and>
     (etagOnce (dl s) \<or>
      (err (dl s) \<noteq> None \<and> length (calls (dl s)) = k \<and>
       list_all (\<lambda>w. \<not> downloading w) (workers s)))"


definition ex_client_tagged :: client where
  "ex_client_tagged k p =
     Inr (ex_probe_response\<lparr>rContentRange := Some ''bytes 0-8388607/16777216''\<rparr>)"

section \<open>Evaluating the model on concrete inputs\<close>

lemma retryLoop_numeral:
  "retryLoop cl params (numeral k) d chunk acc =
     (case tryDownloadChunk cl d params chunk of
        (d', chunk', resp, n, None) \<Rightarrow> (d', chunk', Inr (resp, n, None))
      | (d', chunk', resp, n, Some (errReadingBody b)) \<Rightarrow>
          retryLoop cl params (pred_numeral k) d' (chunk'\<lparr>cur := 0\<rparr>)
            (resp, n, Some (errReadingBody b))
      | (d', chunk', resp, n, Some e) \<Rightarrow> (d', chunk', Inl e))"
  by (simp add: numeral_eq_Suc)

lemma replicate_numeral_Cons:
  "replicate (numeral k) x = x # replicate (pred_numeral k) x"
  by (simp add: numeral_eq_Suc)

lemmas eval_defs = retryLoop_numeral replicate_numeral_Cons download_def download_ranges_def download_parts_def init_def new_downloader_def
  ex_options_def ex_input_def singleDownload_def downloadChunk_def downloadChunkWith_def
  chunkParams_def mapGetObjectInput_def tryDownloadChunk_def getChunk_def getDownloadRange_def
  rangeStart_def index_def ParseInt_def ParseUint_def digit_def nzstring_def word_sle_eq word_sless_alt Let_def
  setErr_def setOutput_def incrWritten_def setTotalBytes_def fanOut_def start_pool_def
  finalize_def finished_def step_def producer_step_def worker_step_def close_ch_def
  byteRange_def Sprintf_bytes_def fmt_d_def digits.simps mapFromGetObjectOutput_def
  ToString_def ToInt64_def ToInt32_def ex_response_def int64_of_float_def

section \<open>One chunk: the calls, the retries and the shared fields\<close>

text \<open>What one \<^verbatim>\<open>tryDownloadChunk\<close> leaves alone, and what it returns.\<close>

lemma try_frame:
  assumes "tryDownloadChunk cl d p c = (d', c', r, n, e)"
  shows "options d' = options d" and "inp d' = inp d" and "out d' = out d"
    and "etag d' = etag d" and "etagOnce d' = etagOnce d" and "pos d' = pos d"
    and "offset d' = offset d" and "written d' = written d" and "calls d' = calls d @ [p]"
  using assms
  by (auto simp: tryDownloadChunk_def setTotalBytes_def Let_def
           split: sum.splits option.splits if_splits)

lemma try_err:
  assumes "tryDownloadChunk cl d p c = (d', c', r, n, e)" and "err d \<noteq> None"
  shows "err d' \<noteq> None"
  using assms
  by (auto simp: tryDownloadChunk_def setTotalBytes_def Let_def
           split: sum.splits option.splits if_splits)

lemma try_totalBytes:
  assumes "tryDownloadChunk cl d p c = (d', c', r, n, e)" and "totalBytesOnce d"
  shows "totalBytesOnce d'" and "totalBytes d' = totalBytes d"
  using assms
  by (auto simp: tryDownloadChunk_def setTotalBytes_def Let_def
           split: sum.splits option.splits if_splits)

lemma try_result:
  assumes "tryDownloadChunk cl d p c = (d', c', r, n, e)"
  shows "case cl (length (calls d)) p of
           Inl a \<Rightarrow> e = Some (APIError a) \<and> r = None \<and> n = 0
         | Inr resp \<Rightarrow>
             (case snd (rBody resp) of
                Some b \<Rightarrow> e = Some (errReadingBody b) \<and> r = None \<and> n = 0
              | None \<Rightarrow> e = None \<and> r = Some resp \<and> n = fst (rBody resp))"
  using assms
  by (auto simp: tryDownloadChunk_def Let_def split: sum.splits option.splits)

lemma retry_frame:
  "retryLoop cl p k d c acc = (d', c', res) \<Longrightarrow>
     options d' = options d \<and> inp d' = inp d \<and> out d' = out d \<and> etag d' = etag d \<and>
     etagOnce d' = etagOnce d \<and> pos d' = pos d \<and> offset d' = offset d \<and>
     written d' = written d \<and> (err d \<noteq> None \<longrightarrow> err d' \<noteq> None) \<and>
     (totalBytesOnce d \<longrightarrow> totalBytesOnce d' \<and> totalBytes d' = totalBytes d)"
proof (induction k arbitrary: d c acc)
  case 0
  then show ?case by simp
next
  case (Suc k)
  obtain d1 c1 r n e where t: "tryDownloadChunk cl d p c = (d1, c1, r, n, e)"
    by (metis prod_cases5)
  note f = try_frame [OF t] try_err [OF t] try_totalBytes [OF t]
  show ?case
  proof (cases e)
    case None
    with Suc.prems t f show ?thesis by auto
  next
    case (Some x)
    show ?thesis
    proof (cases "\<exists>b. x = errReadingBody b")
      case True
      then obtain b where "x = errReadingBody b" by blast
      with Suc.prems t Some
      have "retryLoop cl p k d1 (c1\<lparr>cur := 0\<rparr>) (r, n, Some (errReadingBody b)) = (d', c', res)"
        by simp
      from Suc.IH [OF this] f show ?thesis by auto
    next
      case False
      with Suc.prems t Some have "d' = d1" by (cases x) auto
      with f show ?thesis by auto
    qed
  qed
qed

lemma retry_attempts:
  "retryLoop cl p k d c acc = (d', c', res) \<Longrightarrow>
     \<exists>m\<le>k. calls d' = calls d @ replicate m p \<and>
       (m = 0 \<longrightarrow> k = 0 \<and> res = Inr acc) \<and>
       (\<forall>j<m. case cl (length (calls d) + j) p of
                 Inl a \<Rightarrow> Suc j = m \<and> res = Inl (APIError a)
               | Inr resp \<Rightarrow>
                   (case snd (rBody resp) of
                      None \<Rightarrow> Suc j = m \<and> res = Inr (Some resp, fst (rBody resp), None)
                    | Some b \<Rightarrow>
                        (Suc j = m \<longrightarrow>
                           m = k \<and> res = Inr (None, 0, Some (errReadingBody b)))))"
proof (induction k arbitrary: d c acc)
  case 0
  then show ?case by simp
next
  case (Suc k)
  obtain d1 c1 r n e where t: "tryDownloadChunk cl d p c = (d1, c1, r, n, e)"
    by (metis prod_cases5)
  note calls1 = try_frame(9) [OF t]
  note tr = try_result [OF t]
  show ?case
  proof (cases "cl (length (calls d)) p")
    case (Inl a)
    with tr have e: "e = Some (APIError a)" by simp
    with Suc.prems t have "d' = d1" "res = Inl (APIError a)" by auto
    with calls1 Inl show ?thesis by (intro exI [of _ 1]) simp
  next
    case (Inr resp)
    show ?thesis
    proof (cases "snd (rBody resp)")
      case None
      with tr Inr have "e = None" "r = Some resp" "n = fst (rBody resp)" by simp_all
      with Suc.prems t have "d' = d1" "res = Inr (Some resp, fst (rBody resp), None)" by auto
      with calls1 Inr None show ?thesis by (intro exI [of _ 1]) simp
    next
      case (Some b)
      with tr Inr have e: "e = Some (errReadingBody b)" "r = None" "n = 0" by simp_all
      with Suc.prems t
      have rec: "retryLoop cl p k d1 (c1\<lparr>cur := 0\<rparr>) (None, 0, Some (errReadingBody b)) = (d', c', res)"
        by simp
      from Suc.IH [OF rec] obtain m where m: "m \<le> k"
        "calls d' = calls d1 @ replicate m p"
        "m = 0 \<longrightarrow> k = 0 \<and> res = Inr (None, 0, Some (errReadingBody b))"
        "\<forall>j<m. case cl (length (calls d1) + j) p of
                 Inl a \<Rightarrow> Suc j = m \<and> res = Inl (APIError a)
               | Inr resp \<Rightarrow>
                   (case snd (rBody resp) of
                      None \<Rightarrow> Suc j = m \<and> res = Inr (Some resp, fst (rBody resp), None)
                    | Some b \<Rightarrow>
                        (Suc j = m \<longrightarrow>
                           m = k \<and> res = Inr (None, 0, Some (errReadingBody b))))"
        by blast
      have c: "calls d' = calls d @ replicate (Suc m) p"
        using m(2) calls1 by (simp add: replicate_app_Cons_same)
      have "\<forall>j<Suc m. case cl (length (calls d) + j) p of
                 Inl a \<Rightarrow> Suc j = Suc m \<and> res = Inl (APIError a)
               | Inr resp \<Rightarrow>
                   (case snd (rBody resp) of
                      None \<Rightarrow> Suc j = Suc m \<and> res = Inr (Some resp, fst (rBody resp), None)
                    | Some b \<Rightarrow>
                        (Suc j = Suc m \<longrightarrow>
                           Suc m = Suc k \<and> res = Inr (None, 0, Some (errReadingBody b))))"
      proof (intro allI impI)
        fix j assume j: "j < Suc m"
        show "case cl (length (calls d) + j) p of
                 Inl a \<Rightarrow> Suc j = Suc m \<and> res = Inl (APIError a)
               | Inr resp \<Rightarrow>
                   (case snd (rBody resp) of
                      None \<Rightarrow> Suc j = Suc m \<and> res = Inr (Some resp, fst (rBody resp), None)
                    | Some b \<Rightarrow>
                        (Suc j = Suc m \<longrightarrow>
                           Suc m = Suc k \<and> res = Inr (None, 0, Some (errReadingBody b))))"
        proof (cases j)
          case 0
          with Inr Some m(3) show ?thesis by simp
        next
          case (Suc j')
          with j have "j' < m" by simp
          with m(4) have "case cl (length (calls d1) + j') p of
                 Inl a \<Rightarrow> Suc j' = m \<and> res = Inl (APIError a)
               | Inr resp \<Rightarrow>
                   (case snd (rBody resp) of
                      None \<Rightarrow> Suc j' = m \<and> res = Inr (Some resp, fst (rBody resp), None)
                    | Some b \<Rightarrow>
                        (Suc j' = m \<longrightarrow>
                           m = k \<and> res = Inr (None, 0, Some (errReadingBody b))))"
            by blast
          then show ?thesis using Suc calls1
            by (simp split: sum.splits option.splits)
        qed
      qed
      with c m(1) show ?thesis by (intro exI [of _ "Suc m"]) simp
    qed
  qed
qed

lemma dcw_frame:
  assumes "downloadChunkWith cl d c p = (d', output, e)"
  shows "options d' = options d" and "inp d' = inp d" and "out d' = out d"
    and "pos d' = pos d" and "offset d' = offset d"
    and "err d \<noteq> None \<longrightarrow> err d' \<noteq> None"
    and "totalBytesOnce d \<longrightarrow> totalBytesOnce d' \<and> totalBytes d' = totalBytes d"
    and "etagOnce d \<longrightarrow> etagOnce d' \<and> etag d' = etag d"
    and "\<not> etagOnce d \<longrightarrow>
           (case output of None \<Rightarrow> \<not> etagOnce d' \<and> etag d' = etag d
            | Some res \<Rightarrow> etagOnce d' \<and> etag d' = ETag res)"
proof -
  obtain d1 c1 res where r:
    "retryLoop cl p (nat (PartBodyMaxRetries (options d))) d c (None, 0, None) = (d1, c1, res)"
    by (metis prod_cases3)
  note f = retry_frame [OF r]
  from assms r f
  show "options d' = options d" and "inp d' = inp d" and "out d' = out d"
    and "pos d' = pos d" and "offset d' = offset d"
    and "err d \<noteq> None \<longrightarrow> err d' \<noteq> None"
    and "totalBytesOnce d \<longrightarrow> totalBytesOnce d' \<and> totalBytes d' = totalBytes d"
    and "etagOnce d \<longrightarrow> etagOnce d' \<and> etag d' = etag d"
    and "\<not> etagOnce d \<longrightarrow>
           (case output of None \<Rightarrow> \<not> etagOnce d' \<and> etag d' = etag d
            | Some res \<Rightarrow> etagOnce d' \<and> etag d' = ETag res)"
    by (auto simp: downloadChunkWith_def incrWritten_def Let_def mapFromGetObjectOutput_def
             split: sum.splits option.splits prod.splits if_splits)
qed

lemma dcw_attempts:
  assumes "downloadChunkWith cl d c p = (d', output, e)"
  shows "\<exists>m. calls d' = calls d @ replicate m p \<and>
           int m \<le> max 0 (PartBodyMaxRetries (options d)) \<and>
           (\<forall>j<m. case cl (length (calls d) + j) p of
                     Inl a \<Rightarrow> Suc j = m \<and> e = Some (APIError a) \<and> output = None
                   | Inr resp \<Rightarrow>
                       (case snd (rBody resp) of
                          None \<Rightarrow> Suc j = m \<and> e = None \<and> output \<noteq> None
                        | Some b \<Rightarrow>
                            (Suc j = m \<longrightarrow>
                               int m = PartBodyMaxRetries (options d) \<and>
                               e = Some (errReadingBody b) \<and> output = None)))"
proof -
  obtain d1 c1 res where r:
    "retryLoop cl p (nat (PartBodyMaxRetries (options d))) d c (None, 0, None) = (d1, c1, res)"
    by (metis prod_cases3)
  from retry_attempts [OF r] obtain m where m:
    "m \<le> nat (PartBodyMaxRetries (options d))" "calls d1 = calls d @ replicate m p"
    "\<forall>j<m. case cl (length (calls d) + j) p of
                 Inl a \<Rightarrow> Suc j = m \<and> res = Inl (APIError a)
               | Inr resp \<Rightarrow>
                   (case snd (rBody resp) of
                      None \<Rightarrow> Suc j = m \<and> res = Inr (Some resp, fst (rBody resp), None)
                    | Some b \<Rightarrow>
                        (Suc j = m \<longrightarrow>
                           m = nat (PartBodyMaxRetries (options d)) \<and>
                           res = Inr (None, 0, Some (errReadingBody b))))"
    by blast
  have c: "calls d' = calls d1"
    using assms r
    by (auto simp: downloadChunkWith_def incrWritten_def Let_def
             split: sum.splits option.splits prod.splits if_splits)
  have "\<forall>j<m. case cl (length (calls d) + j) p of
                     Inl a \<Rightarrow> Suc j = m \<and> e = Some (APIError a) \<and> output = None
                   | Inr resp \<Rightarrow>
                       (case snd (rBody resp) of
                          None \<Rightarrow> Suc j = m \<and> e = None \<and> output \<noteq> None
                        | Some b \<Rightarrow>
                            (Suc j = m \<longrightarrow>
                               int m = PartBodyMaxRetries (options d) \<and>
                               e = Some (errReadingBody b) \<and> output = None))"
  proof (intro allI impI)
    fix j assume j: "j < m"
    with m(1) have pos: "0 < PartBodyMaxRetries (options d)" by linarith
    from m(3) j have
      "case cl (length (calls d) + j) p of
                 Inl a \<Rightarrow> Suc j = m \<and> res = Inl (APIError a)
               | Inr resp \<Rightarrow>
                   (case snd (rBody resp) of
                      None \<Rightarrow> Suc j = m \<and> res = Inr (Some resp, fst (rBody resp), None)
                    | Some b \<Rightarrow>
                        (Suc j = m \<longrightarrow>
                           m = nat (PartBodyMaxRetries (options d)) \<and>
                           res = Inr (None, 0, Some (errReadingBody b))))"
      by blast
    with assms r pos
    show "case cl (length (calls d) + j) p of
                     Inl a \<Rightarrow> Suc j = m \<and> e = Some (APIError a) \<and> output = None
                   | Inr resp \<Rightarrow>
                       (case snd (rBody resp) of
                          None \<Rightarrow> Suc j = m \<and> e = None \<and> output \<noteq> None
                        | Some b \<Rightarrow>
                            (Suc j = m \<longrightarrow>
                               int m = PartBodyMaxRetries (options d) \<and>
                               e = Some (errReadingBody b) \<and> output = None))"
      by (auto simp: downloadChunkWith_def incrWritten_def Let_def
               split: sum.splits option.splits)
  qed
  with c m(1,2) show ?thesis by (intro exI [of _ m]) auto
qed

text \<open>
  C5. A chunk makes at most \<^verbatim>\<open>PartBodyMaxRetries\<close> calls, all with the same request. A
  call that fails is the last one and its error is the chunk's error; a call whose
  body was copied is the last one; so a call is followed by another one only after a
  failure while copying the body, and such a failure ends the chunk only when the
  attempts are used up.
\<close>

theorem downloadChunk_retry_policy:
  assumes "downloadChunk cl d chunk = (d', output, e)"
  shows "\<exists>m. calls d' = calls d @ replicate m (chunkParams d chunk) \<and>
           int m \<le> max 0 (PartBodyMaxRetries (options d)) \<and>
           (\<forall>j<m. case cl (length (calls d) + j) (chunkParams d chunk) of
                     Inl a \<Rightarrow> Suc j = m \<and> e = Some (APIError a) \<and> output = None
                   | Inr resp \<Rightarrow>
                       (case snd (rBody resp) of
                          None \<Rightarrow> Suc j = m \<and> e = None \<and> output \<noteq> None
                        | Some b \<Rightarrow>
                            (Suc j = m \<longrightarrow>
                               int m = PartBodyMaxRetries (options d) \<and>
                               e = Some (errReadingBody b) \<and> output = None)))"
  using assms unfolding downloadChunk_def by (rule dcw_attempts)

text \<open>
  With five attempts allowed, a first body that breaks off and a second call that fails:
  two calls, and the chunk's error is the second call's.
\<close>

theorem downloadChunk_retry_policy_witness:
  "snd (snd (downloadChunk ex_client_retry
               (new_downloader (ex_options\<lparr>PartBodyMaxRetries := 5\<rparr>) ex_input) ex_chunk))
     = Some (APIError ''SlowDown'') \<and>
   length (calls (fst (downloadChunk ex_client_retry
               (new_downloader (ex_options\<lparr>PartBodyMaxRetries := 5\<rparr>) ex_input) ex_chunk))) = 2 \<and>
   (\<exists>m. calls (fst (downloadChunk ex_client_retry
               (new_downloader (ex_options\<lparr>PartBodyMaxRetries := 5\<rparr>) ex_input) ex_chunk))
          = replicate m (chunkParams (new_downloader (ex_options\<lparr>PartBodyMaxRetries := 5\<rparr>) ex_input) ex_chunk) \<and>
        int m \<le> 5)"
proof -
  let ?d = "new_downloader (ex_options\<lparr>PartBodyMaxRetries := 5\<rparr>) ex_input"
  let ?R = "downloadChunk ex_client_retry ?d ex_chunk"
  have h: "?R = (fst ?R, fst (snd ?R), snd (snd ?R))" by simp
  have e: "snd (snd ?R) = Some (APIError ''SlowDown'')" and l: "length (calls (fst ?R)) = 2"
    by (simp_all add: eval_defs ex_client_retry_def ex_chunk_def)
  from downloadChunk_retry_policy [OF h] obtain m where
    "calls (fst ?R) = calls ?d @ replicate m (chunkParams ?d ex_chunk)"
    "int m \<le> max 0 (PartBodyMaxRetries (options ?d))"
    by blast
  then have "calls (fst ?R) = replicate m (chunkParams ?d ex_chunk) \<and> int m \<le> 5"
    by (simp add: new_downloader_def ex_options_def)
  with e l show ?thesis by blast
qed

section \<open>The byte range of a chunk\<close>

lemma bitlen_le: "a < 2 ^ k \<Longrightarrow> bitlen a \<le> k"
proof (induction k arbitrary: a)
  case 0
  then show ?case by (simp add: bitlen.simps)
next
  case (Suc k)
  have "a div 2 < 2 ^ k" using Suc.prems by simp
  from Suc.IH [OF this] show ?case by (subst bitlen.simps) simp
qed

lemma bitlen_pow2: "bitlen (2 ^ k) = k + 1"
  by (induction k) (simp_all add: bitlen.simps)

text \<open>Up to \<open>2 ^ 53\<close> in magnitude the conversion to float64 loses nothing.\<close>

lemma float64_exact:
  assumes "\<bar>sint x\<bar> \<le> 2 ^ 53"
  shows "float64 x = sint x"
proof (cases "\<bar>sint x\<bar> = 2 ^ 53")
  case True
  then have a: "nat \<bar>sint x\<bar> = 2 ^ 53" by simp
  have b: "bitlen (2 ^ 53) - 53 = 1" unfolding bitlen_pow2 by simp
  have "float64 x = sgn (sint x) * 2 ^ 53"
    unfolding float64_def Let_def a b by simp
  also have "\<dots> = sint x" using True by (cases "sint x < 0") (simp_all add: sgn_if)
  finally show ?thesis .
next
  case False
  with assms have "nat \<bar>sint x\<bar> < 2 ^ 53" by simp
  from bitlen_le [OF this] have e: "bitlen (nat \<bar>sint x\<bar>) - 53 = 0" by simp
  show ?thesis unfolding float64_def Let_def e by (simp add: sgn_if)
qed

lemma int64_of_float_min:
  "int64_of_float (min (sint (a :: int64)) (sint b)) = (if a \<le>s b then a else b)"
  by (simp add: int64_of_float_def word_sle_eq min_def)

lemma float64_ex1: "float64 9007199254740993 = 9007199254740992"
proof -
  have s: "sint (9007199254740993 :: int64) = 9007199254740993" by simp
  have b: "bitlen 9007199254740993 = 54" by (simp add: bitlen.simps)
  show ?thesis unfolding float64_def Let_def s by (simp add: b)
qed

lemma float64_ex2: "float64 1152921504606846975 = 1152921504606846976"
proof -
  have s: "sint (1152921504606846975 :: int64) = 1152921504606846975" by simp
  have b: "bitlen 1152921504606846975 = 60" by (simp add: bitlen.simps)
  show ?thesis unfolding float64_def Let_def s by (simp add: b)
qed

text \<open>
  C9, as the code has it. \<^verbatim>\<open>byteRange\<close> takes the minimum through float64
  (\<^verbatim>\<open>math.Min\<close>), so the header is \<open>bytes=pos-u\<close> with the exact \<open>u\<close> when the total
  is unknown, and when it is known and both \<open>totalBytes - 1\<close> and
  \<open>pos + PartSizeBytes - 1\<close> are at most \<open>2 ^ 53\<close> in magnitude.
\<close>

theorem byteRange_exact_upto_2_53:
  assumes "\<not> 0 \<le>s totalBytes d \<or>
           (\<bar>sint (totalBytes d - 1)\<bar> \<le> 2 ^ 53 \<and>
            \<bar>sint (pos d + PartSizeBytes (options d) - 1)\<bar> \<le> 2 ^ 53)"
  shows "byteRange d = byteRange_spec d"
proof (cases "0 \<le>s totalBytes d")
  case False
  then show ?thesis by (simp add: byteRange_def byteRange_spec_def)
next
  case True
  with assms have "float64 (totalBytes d - 1) = sint (totalBytes d - 1)"
    and "float64 (pos d + PartSizeBytes (options d) - 1) = sint (pos d + PartSizeBytes (options d) - 1)"
    by (simp_all add: float64_exact)
  with True show ?thesis
    by (simp add: byteRange_def byteRange_spec_def int64_of_float_min)
qed

text \<open>
  The theorem at position 100 with 8 MiB parts: a known total of 1000 bytes gives
  \<open>bytes=100-999\<close>, an unknown total gives \<open>bytes=100-8388707\<close>.
\<close>

theorem byteRange_exact_upto_2_53_witness:
  "byteRange ((new_downloader ex_options ex_input)\<lparr>pos := 100, totalBytes := 1000\<rparr>)
     = ''bytes=100-999'' \<and>
   byteRange ((new_downloader ex_options ex_input)\<lparr>pos := 100, totalBytes := - 1\<rparr>)
     = ''bytes=100-8388707''"
  using byteRange_exact_upto_2_53 [of "(new_downloader ex_options ex_input)\<lparr>pos := 100, totalBytes := 1000\<rparr>"]
    byteRange_exact_upto_2_53 [of "(new_downloader ex_options ex_input)\<lparr>pos := 100, totalBytes := - 1\<rparr>"]
  by (simp add: byteRange_spec_def new_downloader_def ex_options_def
        word_sle_eq Sprintf_bytes_def fmt_d_def digits.simps)

text \<open>
  Above \<open>2 ^ 53\<close> the claim as stated fails: with a total of \<open>2 ^ 53 + 2\<close> bytes,
  position 0 and parts of \<open>2 ^ 60\<close> bytes the exact upper bound is
  \<open>9007199254740993\<close>, and the header carries \<open>9007199254740992\<close>.
\<close>

theorem byteRange_above_2_53_counterexample:
  "byteRange ((new_downloader (ex_options\<lparr>PartSizeBytes := 2 ^ 60\<rparr>) ex_input)
                \<lparr>totalBytes := 2 ^ 53 + 2\<rparr>) = ''bytes=0-9007199254740992'' \<and>
   byteRange_spec ((new_downloader (ex_options\<lparr>PartSizeBytes := 2 ^ 60\<rparr>) ex_input)
                \<lparr>totalBytes := 2 ^ 53 + 2\<rparr>) = ''bytes=0-9007199254740993''"
  by (simp add: byteRange_def byteRange_spec_def new_downloader_def ex_options_def
        word_sle_eq float64_ex1 float64_ex2 int64_of_float_def Sprintf_bytes_def fmt_d_def
        digits.simps)

section \<open>The single-chunk path, zero retries and malformed ranges\<close>

text \<open>\<^verbatim>\<open>mapGetObjectInput\<close> copies neither the part number nor the range of the input.\<close>

lemma mapGetObjectInput_no_part_no_range:
  "pPartNumber (mapGetObjectInput i b) = None \<and> pRange (mapGetObjectInput i b) = None"
  by (simp add: mapGetObjectInput_def)

text \<open>
  C2. With a positive part number, or with an explicit range in part mode, \<^verbatim>\<open>download\<close>
  goes through \<^verbatim>\<open>singleDownload\<close>: one chunk, no worker pool. Its chunk has neither part
  nor range, so the one request of the run below (part 3 asked for, concurrency 4) names
  no part, and the one for the range \<open>bytes=100-199\<close> names no range: the call asks
  for the whole object.
\<close>

theorem singleDownload_request_has_no_part:
  "calls (fst (download (\<lambda>k p. Inr ex_response) 5242880 sched
                 (ex_options\<lparr>GetObjectType := GetObjectParts, Concurrency := 4\<rparr>)
                 (ex_input\<lparr>PartNumber := 3\<rparr>)))
     = [mapGetObjectInput (ex_input\<lparr>PartNumber := 3\<rparr>) True] \<and>
   pPartNumber (mapGetObjectInput (ex_input\<lparr>PartNumber := 3\<rparr>) True) = None \<and>
   calls (fst (download (\<lambda>k p. Inr ex_response) 5242880 sched
                 (ex_options\<lparr>GetObjectType := GetObjectParts, Concurrency := 4\<rparr>)
                 (ex_input\<lparr>Range := ''bytes=100-199''\<rparr>)))
     = [mapGetObjectInput (ex_input\<lparr>Range := ''bytes=100-199''\<rparr>) True] \<and>
   pRange (mapGetObjectInput (ex_input\<lparr>Range := ''bytes=100-199''\<rparr>) True) = None"
  by (simp add: eval_defs)

text \<open>
  C3. With \<^verbatim>\<open>PartBodyMaxRetries = 0\<close>, which \<^verbatim>\<open>init\<close> accepts, the loop of
  \<^verbatim>\<open>downloadChunk\<close> does not run: no call is made and the chunk returns
  \<^verbatim>\<open>(nil, nil)\<close>, whatever the client would answer. In the byte-range download below
  \<^verbatim>\<open>getChunk\<close> then reads \<^verbatim>\<open>output.ContentLength\<close> of the \<^verbatim>\<open>nil\<close> output: the call
  panics without a single request.
\<close>

theorem zero_retries_no_attempt:
  "downloadChunk cl (d\<lparr>options := (options d)\<lparr>PartBodyMaxRetries := 0\<rparr>\<rparr>) chunk
     = (d\<lparr>options := (options d)\<lparr>PartBodyMaxRetries := 0\<rparr>\<rparr>, None, None) \<and>
   download cl 5242880 sched (ex_options\<lparr>PartBodyMaxRetries := 0\<rparr>) ex_input
     = ((new_downloader (ex_options\<lparr>PartBodyMaxRetries := 0\<rparr>) ex_input)\<lparr>totalBytes := - 1\<rparr>,
        Panic NilDereference) \<and>
   calls ((new_downloader (ex_options\<lparr>PartBodyMaxRetries := 0\<rparr>) ex_input)\<lparr>totalBytes := - 1\<rparr>) = []"
  by (simp add: eval_defs)

text \<open>
  The well-formed half of C8 holds: \<open>bytes=a-b\<close> with decimal \<open>a\<close> and \<open>b\<close> inside
  int64 parses to \<open>a\<close> and \<open>b + 1\<close>, the half-open span, and records no error.
\<close>

lemma digit_char: "n < 10 \<Longrightarrow> digit (''0123456789'' ! n) = Some n"
proof -
  assume "n < 10"
  then consider "n = 0" | "n = 1" | "n = 2" | "n = 3" | "n = 4" | "n = 5" | "n = 6" | "n = 7"
    | "n = 8" | "n = 9" by atomize_elim arith
  then show ?thesis by cases (simp_all add: digit_def)
qed

lemma digit_char_not_sep:
  "n < 10 \<Longrightarrow> ''0123456789'' ! n \<notin> {CHR ''='', CHR ''-'', CHR ''+''}"
proof -
  assume "n < 10"
  then consider "n = 0" | "n = 1" | "n = 2" | "n = 3" | "n = 4" | "n = 5" | "n = 6" | "n = 7"
    | "n = 8" | "n = 9" by atomize_elim arith
  then show ?thesis by cases simp_all
qed

lemma digits_not_sep: "c \<in> set (digits n) \<Longrightarrow> c \<notin> {CHR ''='', CHR ''-'', CHR ''+''}"
proof (induction n rule: digits.induct)
  case (1 n)
  show ?case
  proof (cases "n < 10")
    case True
    with "1.prems" digit_char_not_sep [of n] show ?thesis by (simp add: digits.simps)
  next
    case False
    with "1.prems" have "c \<in> set (digits (n div 10)) \<or> c = ''0123456789'' ! (n mod 10)"
      by (subst (asm) digits.simps) auto
    with "1.IH" False digit_char_not_sep [of "n mod 10"] show ?thesis by auto
  qed
qed

lemma digits_nonempty: "digits n \<noteq> []"
  by (subst digits.simps) simp

lemma parseDigits_append:
  "parseDigits (xs @ ys) n =
     (case parseDigits xs n of Inl r \<Rightarrow> Inl r | Inr v \<Rightarrow> parseDigits ys v)"
  by (induction xs arbitrary: n) (auto split: option.splits)

lemma parseDigits_digits: "n < 2 ^ 64 \<Longrightarrow> parseDigits (digits n) 0 = Inr n"
proof (induction n rule: digits.induct)
  case (1 n)
  show ?case
  proof (cases "n < 10")
    case True
    then show ?thesis by (simp add: digits.simps digit_char)
  next
    case False
    from "1.prems" have "n div 10 < 2 ^ 64" by simp
    with "1.IH" False have "parseDigits (digits (n div 10)) 0 = Inr (n div 10)" by simp
    moreover from "1.prems" have "n div 10 < 1844674407370955162" by simp
    moreover from "1.prems" have "n div 10 * 10 + n mod 10 \<le> 18446744073709551615" by simp
    ultimately show ?thesis using False
      by (subst digits.simps) (simp add: parseDigits_append digit_char)
  qed
qed

lemma ParseInt_digits:
  assumes "n < 2 ^ 63"
  shows "ParseInt (digits n) = Inr (of_nat n)"
proof -
  have "hd (digits n) \<in> set (digits n)" using digits_nonempty by simp
  from digits_not_sep [OF this] have "hd (digits n) \<noteq> CHR ''-''" "hd (digits n) \<noteq> CHR ''+''"
    by simp_all
  moreover from assms have "parseDigits (digits n) 0 = Inr n"
    by (intro parseDigits_digits) simp
  ultimately show ?thesis using assms
    by (simp add: ParseInt_def ParseUint_def digits_nonempty)
qed

lemma Split_no_sep: "sep \<notin> set s \<Longrightarrow> Split s sep = [s]"
  by (induction s) auto

lemma Split_at_sep: "sep \<notin> set a \<Longrightarrow> Split (a @ sep # b) sep = a # Split b sep"
  by (induction a) auto

lemma getDownloadRange_well_formed:
  assumes "a < 2 ^ 63" and "b < 2 ^ 63"
    and "Range (inp d) = ''bytes='' @ digits a @ ''-'' @ digits b"
  shows "getDownloadRange d = Inr (d, of_nat a, of_nat b + 1)"
proof -
  have na: "CHR ''='' \<notin> set (digits a)" "CHR ''-'' \<notin> set (digits a)"
    and nb: "CHR ''='' \<notin> set (digits b)" "CHR ''-'' \<notin> set (digits b)"
    using digits_not_sep by blast+
  have 1: "Split (Range (inp d)) CHR ''='' = [''bytes'', digits a @ CHR ''-'' # digits b]"
    using Split_at_sep [of "CHR ''=''" "''bytes''" "digits a @ CHR ''-'' # digits b"]
      Split_no_sep [of "CHR ''=''" "digits a @ CHR ''-'' # digits b"] na nb
    by (simp add: assms(3))
  have 2: "Split (digits a @ CHR ''-'' # digits b) CHR ''-'' = [digits a, digits b]"
    using Split_at_sep [of "CHR ''-''" "digits a" "digits b"]
      Split_no_sep [of "CHR ''-''" "digits b"] na nb
    by simp
  note pa = ParseInt_digits [OF assms(1)] and pb = ParseInt_digits [OF assms(2)]
  show ?thesis
    by (simp add: getDownloadRange_def 1 2 index_def pa pb Let_def)
qed

text \<open>
  C8. A range without the separator \<open>-\<close>, or without \<open>=\<close>, makes
  \<^verbatim>\<open>getDownloadRange\<close> index past the end of a slice: the download panics instead of
  failing with a parse error. A bound that is not a number does record the parse
  error, but the download goes on: it still requests \<open>bytes=0--1\<close>, and when that
  call fails the error returned is the call's, not the parse error.
\<close>

theorem malformed_range_panics:
  "snd (download cl 5242880 sched ex_options (ex_input\<lparr>Range := ''bytes=100''\<rparr>))
     = Panic IndexOutOfRange \<and>
   snd (download cl 5242880 sched ex_options (ex_input\<lparr>Range := ''100-199''\<rparr>))
     = Panic IndexOutOfRange \<and>
   map pRange (calls (fst (download (\<lambda>k p. Inl ''AccessDenied'') 5242880
                        [Producer, Worker 0, Worker 1] ex_options
                        (ex_input\<lparr>Range := ''bytes=a-b''\<rparr>))))
     = [Some ''bytes=0--1''] \<and>
   snd (download (\<lambda>k p. Inl ''AccessDenied'') 5242880
                        [Producer, Worker 0, Worker 1] ex_options
                        (ex_input\<lparr>Range := ''bytes=a-b''\<rparr>))
     = Return None (Some (APIError ''AccessDenied''))"
  by (simp add: eval_defs float64_exact)

section \<open>The worker pool: what every run keeps\<close>

lemma stable_refl: "stable d d"
  by (simp add: stable_def)

lemma stable_trans: "stable a b \<Longrightarrow> stable b c \<Longrightarrow> stable a c"
  by (auto simp: stable_def)

lemma dcw_stable: "downloadChunkWith cl d c p = (d', output, e) \<Longrightarrow> stable d d'"
  using dcw_frame [of cl d c p d' "output" e] by (simp add: stable_def)

lemma producer_step_stable: "stable (dl s) (dl (producer_step s))"
  by (simp add: producer_step_def close_ch_def stable_def split: producer.splits)

lemma producer_step_calls: "calls (dl (producer_step s)) = calls (dl s)"
  by (simp add: producer_step_def close_ch_def split: producer.splits)

lemma producer_step_workers: "workers (producer_step s) = workers s"
  by (simp add: producer_step_def close_ch_def split: producer.splits)

lemma worker_step_stable: "stable (dl s) (dl (worker_step cl i s))"
proof (cases "workers s ! i")
  case Receiving
  then show ?thesis
    by (simp add: worker_step_def stable_def split: list.splits)
next
  case (Downloading c p)
  obtain d1 outp e where r: "downloadChunkWith cl (dl s) c p = (d1, outp, e)"
    by (metis prod_cases3)
  from dcw_stable [OF r] Downloading r show ?thesis
    by (auto simp: worker_step_def stable_def setErr_def setOutput_def split: option.splits)
next
  case Exited
  then show ?thesis by (simp add: worker_step_def stable_def)
qed

lemma step_stable: "stable (dl s) (dl (step cl a s))"
  by (cases a) (simp_all add: step_def producer_step_stable worker_step_stable stable_refl)

lemma run_stable: "stable (dl s) (dl (run cl sched s))"
proof (induction sched arbitrary: s)
  case Nil
  show ?case by (simp add: stable_refl)
next
  case (Cons a as)
  from step_stable [of s cl a] Cons [of "step cl a s"] show ?case
    by (auto intro: stable_trans)
qed






text \<open>
  The log of calls only grows. Once an error is recorded, a worker that is downloading
  is one that was downloading before, with the same chunk and request: a worker that
  receives a chunk drops it. So the calls still to come are those of the downloads in
  flight, at most \<^verbatim>\<open>PartBodyMaxRetries\<close> each.
\<close>

lemma dcw_calls:
  assumes "downloadChunkWith cl d c p = (d', outp, e)"
  shows "\<exists>m. calls d' = calls d @ replicate m p"
  using dcw_attempts [OF assms] by blast

lemma step_calls_prefix: "\<exists>more. calls (dl (step cl a s)) = calls (dl s) @ more"
proof (cases a)
  case Producer
  then show ?thesis by (simp add: step_def producer_step_calls)
next
  case (Worker j)
  show ?thesis
  proof (cases "workers s ! j")
    case Receiving
    with Worker show ?thesis
      by (auto simp: step_def worker_step_def split: list.splits)
  next
    case (Downloading c p)
    obtain d1 outp e where r: "downloadChunkWith cl (dl s) c p = (d1, outp, e)"
      by (metis prod_cases3)
    from dcw_calls [OF r] Downloading Worker r show ?thesis
      by (auto simp: step_def worker_step_def setErr_def setOutput_def split: option.splits)
  next
    case Exited
    with Worker show ?thesis by (simp add: step_def worker_step_def)
  qed
qed

lemma run_calls_prefix: "\<exists>more. calls (dl (run cl sched s)) = calls (dl s) @ more"
proof (induction sched arbitrary: s)
  case Nil
  show ?case by simp
next
  case (Cons a as)
  from step_calls_prefix [of cl a s] obtain m1 where
    "calls (dl (step cl a s)) = calls (dl s) @ m1" by blast
  moreover from Cons [of "step cl a s"] obtain m2 where
    "calls (dl (run cl as (step cl a s))) = calls (dl (step cl a s)) @ m2" by blast
  ultimately show ?case by simp
qed

lemma filter_update_count:
  "i < length xs \<Longrightarrow>
     length (filter P (xs[i := x])) + (if P (xs ! i) then 1 else 0)
       = length (filter P xs) + (if P x then 1 else 0)"
proof (induction xs arbitrary: i)
  case Nil
  then show ?case by simp
next
  case (Cons y ys)
  then show ?case by (cases i) auto
qed

lemma producer_step_frame:
  "workers (producer_step s) = workers s \<and> calls (dl (producer_step s)) = calls (dl s)"
  by (simp add: producer_step_workers producer_step_calls)

lemma step_workers_length: "length (workers (step cl a s)) = length (workers s)"
proof (cases a)
  case Producer
  then show ?thesis by (simp add: step_def producer_step_workers)
next
  case (Worker j)
  show ?thesis
    by (cases "workers s ! j")
       (auto simp: Worker step_def worker_step_def split: list.splits prod.splits option.splits)
qed

lemma run_workers_length: "length (workers (run cl sched s)) = length (workers s)"
  by (induction sched arbitrary: s) (simp_all add: step_workers_length)

lemma update_keeps_downloading:
  "k < length ws \<Longrightarrow> \<not> downloading w \<Longrightarrow>
     \<forall>j<length ws. downloading (ws[k := w] ! j) \<longrightarrow> ws[k := w] ! j = ws ! j"
  by (auto simp: nth_list_update)

text \<open>One step of a pool in which an error is recorded.\<close>

lemma step_after_error:
  assumes "err (dl s) \<noteq> None"
  shows "(\<forall>j<length (workers s).
            downloading (workers (step cl a s) ! j) \<longrightarrow> workers (step cl a s) ! j = workers s ! j) \<and>
         length (calls (dl (step cl a s)))
           + in_flight (step cl a s) * nat (PartBodyMaxRetries (options (dl s)))
         \<le> length (calls (dl s)) + in_flight s * nat (PartBodyMaxRetries (options (dl s)))"
proof (cases a)
  case Producer
  then show ?thesis by (simp add: step_def producer_step_frame in_flight_def)
next
  case (Worker k)
  show ?thesis
  proof (cases "k < length (workers s)")
    case False
    with Worker show ?thesis by (simp add: step_def)
  next
    case k: True
    show ?thesis
    proof (cases "workers s ! k")
      case Receiving
      then have nd: "\<not> downloading (workers s ! k)" by (simp add: downloading_def)
      have "step cl a s = s \<or> (\<exists>cs. step cl a s = s\<lparr>ch := cs\<rparr>) \<or>
            step cl a s = s\<lparr>workers := (workers s)[k := Exited]\<rparr>"
        using Worker k Receiving assms
        by (auto simp: step_def worker_step_def split: list.splits)
      moreover have "in_flight (s\<lparr>workers := (workers s)[k := Exited]\<rparr>) = in_flight s"
        using filter_update_count [OF k, of downloading Exited] nd
        by (simp add: in_flight_def downloading_def)
      moreover have "\<forall>j<length (workers s).
            downloading ((workers s)[k := Exited] ! j) \<longrightarrow> (workers s)[k := Exited] ! j = workers s ! j"
        using update_keeps_downloading [OF k, of Exited] by (simp add: downloading_def)
      ultimately show ?thesis by (auto simp: in_flight_def)
    next
      case (Downloading c p)
      then have dk: "downloading (workers s ! k)" by (simp add: downloading_def)
      obtain d1 outp e where r: "downloadChunkWith cl (dl s) c p = (d1, outp, e)"
        by (metis prod_cases3)
      from dcw_attempts [OF r] obtain m where
        m: "calls d1 = calls (dl s) @ replicate m p"
           "int m \<le> max 0 (PartBodyMaxRetries (options (dl s)))"
        by blast
      let ?d2 = "case e of Some x \<Rightarrow> setErr d1 x | None \<Rightarrow> setOutput d1 outp"
      have w: "step cl a s = s\<lparr>dl := ?d2, workers := (workers s)[k := Receiving]\<rparr>"
        using Worker k Downloading r by (auto simp: step_def worker_step_def split: option.splits)
      have c2: "calls ?d2 = calls d1"
        by (auto simp: setErr_def setOutput_def split: option.splits)
      have fl: "in_flight (s\<lparr>dl := ?d2, workers := (workers s)[k := Receiving]\<rparr>) + 1 = in_flight s"
        using filter_update_count [OF k, of downloading Receiving] dk
        by (simp add: in_flight_def downloading_def)
      have mb: "m \<le> nat (PartBodyMaxRetries (options (dl s)))" using m(2) by linarith
      have 1: "\<forall>j<length (workers s).
            downloading ((workers s)[k := Receiving] ! j) \<longrightarrow>
              (workers s)[k := Receiving] ! j = workers s ! j"
        using update_keeps_downloading [OF k, of Receiving] by (simp add: downloading_def)
      have "length (calls ?d2)
              + in_flight (s\<lparr>dl := ?d2, workers := (workers s)[k := Receiving]\<rparr>)
                * nat (PartBodyMaxRetries (options (dl s)))
            \<le> length (calls (dl s)) + (in_flight (s\<lparr>dl := ?d2, workers := (workers s)[k := Receiving]\<rparr>) + 1)
                * nat (PartBodyMaxRetries (options (dl s)))"
        using c2 m(1) mb by simp
      with 1 fl show ?thesis unfolding w by simp
    next
      case Exited
      with Worker k show ?thesis by (simp add: step_def worker_step_def)
    qed
  qed
qed

lemma run_after_error:
  assumes "err (dl s) \<noteq> None"
  shows "(\<forall>j<length (workers s).
            downloading (workers (run cl sched s) ! j) \<longrightarrow> workers (run cl sched s) ! j = workers s ! j) \<and>
         length (calls (dl (run cl sched s)))
           + in_flight (run cl sched s) * nat (PartBodyMaxRetries (options (dl s)))
         \<le> length (calls (dl s)) + in_flight s * nat (PartBodyMaxRetries (options (dl s)))"
  using assms
proof (induction sched arbitrary: s)
  case Nil
  show ?case by simp
next
  case (Cons a as)
  let ?t = "step cl a s"
  from step_stable [of s cl a] Cons.prems have e: "err (dl ?t) \<noteq> None"
    and o: "options (dl ?t) = options (dl s)"
    by (simp_all add: stable_def)
  note st = step_after_error [OF Cons.prems, of cl a]
  note ih = Cons.IH [OF e, unfolded o step_workers_length]
  from st ih show ?case by (auto simp: downloading_def)
qed

lemma finalize_err:
  "err d = Some e \<Longrightarrow> finalize d = (d, Return None (Some e))"
  by (simp add: finalize_def)

lemma ex_after_probe_eval:
  "ex_after_probe = \<lparr>options = ex_options, inp = ex_input,
     out = Some \<lparr>ContentLength = 8388608, ContentRange = ''bytes 0-8388607/33554432'',
            ETag = ''etag-1'', PartsCount = 0, ContentType = ''text/plain'',
            VersionID_out = [], ChecksumMode_out = ''ENABLED''\<rparr>,
     etagOnce = True, totalBytesOnce = True, offset = 0, pos = 8388608,
     totalBytes = 33554432, written = 8388608, etag = ''etag-1'', err = None,
     calls = [(mapGetObjectInput ex_input True)\<lparr>pRange := Some ''bytes=0-8388607''\<rparr>]\<rparr>"
  by (simp add: ex_after_probe_def ex_client_two_failures_def ex_probe_response_def eval_defs)





section \<open>The total size and the entity tag\<close>

lemma try_first_response:
  assumes "tryDownloadChunk cl d p c = (d', c', r, n, e)" and "\<not> totalBytesOnce d"
  shows "case cl (length (calls d)) p of
           Inl a \<Rightarrow> \<not> totalBytesOnce d' \<and> totalBytes d' = totalBytes d
         | Inr resp \<Rightarrow>
             totalBytesOnce d' \<and>
             totalBytes d' =
               (if 0 \<le>s totalBytes d then totalBytes d
                else (case rContentRange resp of
                        None \<Rightarrow> ToInt64 (rContentLength resp)
                      | Some cr \<Rightarrow>
                          (case ParseInt (last (Split cr CHR ''/'')) of
                             Inl x \<Rightarrow> totalBytes d
                           | Inr t \<Rightarrow> t)))"
  using assms
  by (auto simp: tryDownloadChunk_def setTotalBytes_def Let_def
           split: sum.splits option.splits if_splits)

text \<open>
  C7, as the code has it. \<^verbatim>\<open>init\<close> sets the total to \<open>-1\<close>. The first call that
  returns a response (the once-flag not yet set) sets the flag, and sets the total only
  if it is still negative then: from the total of the content range when there is one
  and it parses, from the content length when there is none. With an explicit range in
  byte-range mode the total is already \<open>end + 1\<close> at that moment and the response does
  not change it. A call that fails leaves flag and total alone. Once the flag is set,
  no chunk and no run of the pool changes the total.
\<close>

theorem totalBytes_set_once:
  "(init mp d0 = Inr d1 \<longrightarrow> totalBytes d1 = - 1) \<and>
   (tryDownloadChunk cl d p c = (d', c', r, n, e) \<and> \<not> totalBytesOnce d \<longrightarrow>
      (case cl (length (calls d)) p of
         Inl a \<Rightarrow> \<not> totalBytesOnce d' \<and> totalBytes d' = totalBytes d
       | Inr resp \<Rightarrow>
           totalBytesOnce d' \<and>
           totalBytes d' =
             (if 0 \<le>s totalBytes d then totalBytes d
              else (case rContentRange resp of
                      None \<Rightarrow> ToInt64 (rContentLength resp)
                    | Some cr \<Rightarrow>
                        (case ParseInt (last (Split cr CHR ''/'')) of
                           Inl x \<Rightarrow> totalBytes d
                         | Inr t \<Rightarrow> t))))) \<and>
   (totalBytesOnce d2 \<and> downloadChunk cl d2 c2 = (d3, outp, e3) \<longrightarrow>
      totalBytesOnce d3 \<and> totalBytes d3 = totalBytes d2) \<and>
   (totalBytesOnce (dl s) \<longrightarrow>
      totalBytesOnce (dl (run cl sched s)) \<and> totalBytes (dl (run cl sched s)) = totalBytes (dl s))"
proof (intro conjI impI)
  assume "init mp d0 = Inr d1"
  then show "totalBytes d1 = - 1" by (auto simp: init_def split: if_splits)
next
  assume "tryDownloadChunk cl d p c = (d', c', r, n, e) \<and> \<not> totalBytesOnce d"
  then show "case cl (length (calls d)) p of
         Inl a \<Rightarrow> \<not> totalBytesOnce d' \<and> totalBytes d' = totalBytes d
       | Inr resp \<Rightarrow>
           totalBytesOnce d' \<and>
           totalBytes d' =
             (if 0 \<le>s totalBytes d then totalBytes d
              else (case rContentRange resp of
                      None \<Rightarrow> ToInt64 (rContentLength resp)
                    | Some cr \<Rightarrow>
                        (case ParseInt (last (Split cr CHR ''/'')) of
                           Inl x \<Rightarrow> totalBytes d
                         | Inr t \<Rightarrow> t)))"
    using try_first_response by blast
next
  assume a: "totalBytesOnce d2 \<and> downloadChunk cl d2 c2 = (d3, outp, e3)"
  then have "downloadChunkWith cl d2 c2 (chunkParams d2 c2) = (d3, outp, e3)"
    by (simp add: downloadChunk_def)
  from dcw_frame(7) [OF this] a
  show "totalBytesOnce d3" and "totalBytes d3 = totalBytes d2" by simp_all
next
  assume "totalBytesOnce (dl s)"
  with run_stable [of s cl sched]
  show "totalBytesOnce (dl (run cl sched s))"
    and "totalBytes (dl (run cl sched s)) = totalBytes (dl s)"
    by (simp_all add: stable_def)
qed

text \<open>
  The theorem on the first call of the 32 MiB example: the total goes from \<open>-1\<close> to
  33554432 and stays there through the run of the pool.
\<close>

theorem totalBytes_set_once_witness:
  "totalBytes ((new_downloader ex_options ex_input)\<lparr>totalBytes := - 1\<rparr>) = - 1 \<and>
   totalBytesOnce (fst (tryDownloadChunk ex_client_two_failures
       ((new_downloader ex_options ex_input)\<lparr>totalBytes := - 1\<rparr>)
       (chunkParams ((new_downloader ex_options ex_input)\<lparr>totalBytes := - 1\<rparr>) ex_chunk)
       ex_chunk)) \<and>
   totalBytes (fst (tryDownloadChunk ex_client_two_failures
       ((new_downloader ex_options ex_input)\<lparr>totalBytes := - 1\<rparr>)
       (chunkParams ((new_downloader ex_options ex_input)\<lparr>totalBytes := - 1\<rparr>) ex_chunk)
       ex_chunk)) = 33554432 \<and>
   totalBytes (dl (run ex_client_two_failures (ex_sched1 @ ex_sched2) ex_pool)) = 33554432"
proof -
  let ?d = "(new_downloader ex_options ex_input)\<lparr>totalBytes := - 1\<rparr>"
  let ?p = "chunkParams ?d ex_chunk"
  let ?T = "tryDownloadChunk ex_client_two_failures ?d ?p ex_chunk"
  have i: "init 5242880 (new_downloader ex_options ex_input) = Inr ?d"
    by (simp add: eval_defs)
  have t: "?T = (fst ?T, fst (snd ?T), fst (snd (snd ?T)), fst (snd (snd (snd ?T))),
                 snd (snd (snd (snd ?T))))" by simp
  have n: "\<not> totalBytesOnce ?d" by (simp add: new_downloader_def)
  have c: "ex_client_two_failures (length (calls ?d)) ?p = Inr ex_probe_response"
    by (simp add: ex_client_two_failures_def new_downloader_def)
  have v: "(if 0 \<le>s totalBytes ?d then totalBytes ?d
            else (case rContentRange ex_probe_response of
                    None \<Rightarrow> ToInt64 (rContentLength ex_probe_response)
                  | Some cr \<Rightarrow>
                      (case ParseInt (last (Split cr CHR ''/'')) of
                         Inl x \<Rightarrow> totalBytes ?d
                       | Inr t \<Rightarrow> t))) = 33554432"
    by (simp add: eval_defs ex_probe_response_def)
  have o: "totalBytesOnce (dl ex_pool)" and b: "totalBytes (dl ex_pool) = 33554432"
    by (simp_all add: ex_pool_def ex_after_probe_eval start_pool_def)
  note T = totalBytes_set_once [where mp = 5242880 and ?d0.0 = "new_downloader ex_options ex_input"
      and ?d1.0 = ?d and cl = ex_client_two_failures and d = ?d and p = ?p and c = ex_chunk
      and d' = "fst ?T" and c' = "fst (snd ?T)" and r = "fst (snd (snd ?T))"
      and n = "fst (snd (snd (snd ?T)))" and e = "snd (snd (snd (snd ?T)))"
      and s = ex_pool and sched = "ex_sched1 @ ex_sched2"]
  from T i have 1: "totalBytes ?d = - 1" by blast
  from T t n have "case ex_client_two_failures (length (calls ?d)) ?p of
         Inl a \<Rightarrow> \<not> totalBytesOnce (fst ?T) \<and> totalBytes (fst ?T) = totalBytes ?d
       | Inr resp \<Rightarrow>
           totalBytesOnce (fst ?T) \<and>
           totalBytes (fst ?T) =
             (if 0 \<le>s totalBytes ?d then totalBytes ?d
              else (case rContentRange resp of
                      None \<Rightarrow> ToInt64 (rContentLength resp)
                    | Some cr \<Rightarrow>
                        (case ParseInt (last (Split cr CHR ''/'')) of
                           Inl x \<Rightarrow> totalBytes ?d
                         | Inr t \<Rightarrow> t)))"
    by blast
  with c v have 2: "totalBytesOnce (fst ?T) \<and> totalBytes (fst ?T) = 33554432" by simp
  from T o b have 3: "totalBytes (dl (run ex_client_two_failures (ex_sched1 @ ex_sched2) ex_pool))
      = 33554432" by simp
  from 1 2 3 show ?thesis by blast
qed

text \<open>
  The claim as stated fails with an explicit range: for \<open>bytes=100-199\<close> the first
  response declares the content range \<open>bytes 100-199/1000\<close>, whose total is 1000,
  and the total of the download is 200.
\<close>

theorem totalBytes_explicit_range_counterexample:
  "rContentRange ex_response = Some ''bytes 100-199/1000'' \<and>
   ParseInt (last (Split ''bytes 100-199/1000'' CHR ''/'')) = Inr 1000 \<and>
   totalBytes (fst (download (\<lambda>k p. Inr ex_response) 5242880 [Producer, Worker 0, Worker 1]
                      ex_options (ex_input\<lparr>Range := ''bytes=100-199''\<rparr>))) = 200 \<and>
   map pRange (calls (fst (download (\<lambda>k p. Inr ex_response) 5242880 [Producer, Worker 0, Worker 1]
                      ex_options (ex_input\<lparr>Range := ''bytes=100-199''\<rparr>))))
     = [Some ''bytes=100-199'']"
  by (simp add: eval_defs float64_exact)

text \<open>
  C6, as the code has it. The tag is captured by the first chunk that returns a
  response (\<^verbatim>\<open>etagOnce\<close>), as that response's \<^verbatim>\<open>ETag\<close>, and no later chunk and no run
  of the pool changes it. A request built when the input has no version and the
  captured tag is not empty carries that tag as \<^verbatim>\<open>IfMatch\<close>.
\<close>

theorem etag_captured_once:
  "(downloadChunk cl d c = (d', outp, e) \<longrightarrow>
      (if etagOnce d then etagOnce d' \<and> etag d' = etag d
       else (case outp of
               None \<Rightarrow> \<not> etagOnce d' \<and> etag d' = etag d
             | Some res \<Rightarrow> etagOnce d' \<and> etag d' = ETag res))) \<and>
   (etagOnce (dl s) \<longrightarrow>
      etagOnce (dl (run cl sched s)) \<and> etag (dl (run cl sched s)) = etag (dl s)) \<and>
   (VersionID (inp d2) = [] \<and> etag d2 \<noteq> [] \<longrightarrow>
      pIfMatch (chunkParams d2 c2) = Some (etag d2))"
proof (intro conjI impI)
  assume "downloadChunk cl d c = (d', outp, e)"
  then have "downloadChunkWith cl d c (chunkParams d c) = (d', outp, e)"
    by (simp add: downloadChunk_def)
  from dcw_frame(8,9) [OF this]
  show "if etagOnce d then etagOnce d' \<and> etag d' = etag d
       else (case outp of
               None \<Rightarrow> \<not> etagOnce d' \<and> etag d' = etag d
             | Some res \<Rightarrow> etagOnce d' \<and> etag d' = ETag res)"
    by simp
next
  assume "etagOnce (dl s)"
  with run_stable [of s cl sched]
  show "etagOnce (dl (run cl sched s))" and "etag (dl (run cl sched s)) = etag (dl s)"
    by (simp_all add: stable_def)
next
  assume "VersionID (inp d2) = [] \<and> etag d2 \<noteq> []"
  then show "pIfMatch (chunkParams d2 c2) = Some (etag d2)"
    by (simp add: chunkParams_def mapGetObjectInput_def nzstring_def Let_def)
qed

text \<open>
  The theorem on the 32 MiB example: the first chunk captures \<open>etag-1\<close>, the run of
  the pool keeps it, and a request built afterwards carries it.
\<close>

theorem etag_captured_once_witness:
  "etagOnce (fst (downloadChunk ex_client_two_failures
       ((new_downloader ex_options ex_input)\<lparr>totalBytes := - 1\<rparr>) ex_chunk)) \<and>
   etag (fst (downloadChunk ex_client_two_failures
       ((new_downloader ex_options ex_input)\<lparr>totalBytes := - 1\<rparr>) ex_chunk)) = ''etag-1'' \<and>
   etag (dl (run ex_client_two_failures (ex_sched1 @ ex_sched2) ex_pool)) = ''etag-1'' \<and>
   pIfMatch (chunkParams ex_after_probe ex_chunk) = Some ''etag-1''"
proof -
  let ?d = "(new_downloader ex_options ex_input)\<lparr>totalBytes := - 1\<rparr>"
  let ?R = "downloadChunk ex_client_two_failures ?d ex_chunk"
  have h: "?R = (fst ?R, fst (snd ?R), snd (snd ?R))" by simp
  have n: "\<not> etagOnce ?d" by (simp add: new_downloader_def)
  have r: "fst (snd ?R) = Some (mapFromGetObjectOutput ex_probe_response ''ENABLED'')"
    by (simp add: eval_defs ex_client_two_failures_def ex_chunk_def ex_probe_response_def)
  have t: "ETag (mapFromGetObjectOutput ex_probe_response ''ENABLED'') = ''etag-1''"
    by (simp add: mapFromGetObjectOutput_def ex_probe_response_def ToString_def)
  have o: "etagOnce (dl ex_pool)" and g: "etag (dl ex_pool) = ''etag-1''"
    and v: "VersionID (inp ex_after_probe) = []" and ne: "etag ex_after_probe \<noteq> []"
    and g2: "etag ex_after_probe = ''etag-1''"
    by (simp_all add: ex_pool_def ex_after_probe_eval start_pool_def ex_input_def)
  note T = etag_captured_once [where cl = ex_client_two_failures and d = ?d and c = ex_chunk
      and d' = "fst ?R" and outp = "fst (snd ?R)" and e = "snd (snd ?R)"
      and s = ex_pool and sched = "ex_sched1 @ ex_sched2"
      and ?d2.0 = ex_after_probe and ?c2.0 = ex_chunk]
  from T h n r t have 1: "etagOnce (fst ?R) \<and> etag (fst ?R) = ''etag-1''" by simp
  from T o g have 2: "etag (dl (run ex_client_two_failures (ex_sched1 @ ex_sched2) ex_pool))
      = ''etag-1''" by simp
  from T v ne g2 have 3: "pIfMatch (chunkParams ex_after_probe ex_chunk) = Some ''etag-1''"
    by simp
  from 1 2 3 show ?thesis by blast
qed

text \<open>
  The claim as stated fails when the first response has no entity tag: the capture has
  happened, the captured tag is empty, the input has no version, and the request of the
  second chunk, built after the capture, has no \<^verbatim>\<open>IfMatch\<close> at all. The download
  succeeds.
\<close>

theorem empty_tag_no_if_match_counterexample:
  "VersionID ex_input = [] \<and>
   etagOnce (fst (download ex_client_no_etag 5242880 ex_sched_two_chunks ex_options ex_input)) \<and>
   etag (fst (download ex_client_no_etag 5242880 ex_sched_two_chunks ex_options ex_input)) = [] \<and>
   map pRange (calls (fst (download ex_client_no_etag 5242880 ex_sched_two_chunks
                             ex_options ex_input)))
     = [Some ''bytes=0-8388607'', Some ''bytes=8388608-16777215''] \<and>
   map pIfMatch (calls (fst (download ex_client_no_etag 5242880 ex_sched_two_chunks
                               ex_options ex_input)))
     = [None, None] \<and>
   snd (download ex_client_no_etag 5242880 ex_sched_two_chunks ex_options ex_input)
     = Return (Some \<lparr>ContentLength = 16777216, ContentRange = ''bytes=0-16777215'', ETag = [],
                     PartsCount = 0, ContentType = ''text/plain'', VersionID_out = [],
                     ChecksumMode_out = ''ENABLED''\<rparr>) None"
  by (simp add: eval_defs float64_exact ex_client_no_etag_def ex_sched_two_chunks_def
        ex_probe_response_def)

section \<open>The result of a chunked download\<close>

lemma getChunk_stable:
  assumes "getChunk cl d prt rng = (d1, g)"
  shows "stable d d1"
proof -
  let ?c = "\<lparr> start = pos d - offset d, cur = 0, part = prt, withRange = rng \<rparr>"
  obtain d0 outp e where r: "downloadChunkWith cl d ?c (chunkParams d ?c) = (d0, outp, e)"
    by (metis prod_cases3)
  from dcw_stable [OF r] assms r show ?thesis
    by (auto simp: getChunk_def downloadChunk_def Let_def setErr_def setOutput_def stable_def
             split: option.splits if_splits)
qed









section \<open>The conditional match of every request\<close>

lemma chunkParams_if_match:
  "VersionID (inp d) = [] \<Longrightarrow> pIfMatch (chunkParams d c) = if_match_after (inp d) (etag d)"
  by (simp add: chunkParams_def mapGetObjectInput_def nzstring_def if_match_after_def Let_def)

lemma list_all_update:
  "list_all P xs \<Longrightarrow> P x \<Longrightarrow> list_all P (xs[i := x])"
  using set_update_subset_insert [of xs i x] by (auto simp: list_all_iff)

lemma producer_step_log: "log_inv i k tag s \<Longrightarrow> log_inv i k tag (producer_step s)"
  by (auto simp: log_inv_def producer_step_def close_ch_def split: producer.splits)

lemma worker_step_log:
  assumes "VersionID i = []" and "log_inv i k tag s" and "j < length (workers s)"
  shows "log_inv i k tag (worker_step cl j s)"
proof (cases "workers s ! j")
  case Receiving
  show ?thesis
  proof (cases "ch s")
    case Nil
    with Receiving assms(2) show ?thesis
      by (auto simp: worker_step_def log_inv_def request_of_def downloading_def
               intro!: list_all_update)
  next
    case (Cons c cs)
    show ?thesis
    proof (cases "err (dl s) \<noteq> None")
      case True
      with Receiving Cons assms(2) show ?thesis
        by (auto simp: worker_step_def log_inv_def)
    next
      case False
      with assms(2) have o: "etagOnce (dl s)" by (auto simp: log_inv_def)
      from assms(1,2) have "pIfMatch (chunkParams (dl s) c) = if_match_after i tag"
        using chunkParams_if_match [of "dl s" c] by (auto simp: log_inv_def)
      with Receiving Cons False assms(2) o show ?thesis
        by (auto simp: worker_step_def log_inv_def request_of_def intro!: list_all_update)
    qed
  qed
next
  case (Downloading c p)
  with assms(3) have m: "Downloading c p \<in> set (workers s)" by (metis nth_mem)
  with assms(2) have p: "pIfMatch p = if_match_after i tag"
    and o: "etagOnce (dl s)"
    by (auto simp: log_inv_def list_all_iff request_of_def downloading_def)
  obtain d1 outp e where r: "downloadChunkWith cl (dl s) c p = (d1, outp, e)"
    by (metis prod_cases3)
  from dcw_calls [OF r] obtain m where c: "calls d1 = calls (dl s) @ replicate m p" by blast
  from dcw_frame(2,8) [OF r] o have f: "inp d1 = inp (dl s)" "etagOnce d1" "etag d1 = etag (dl s)"
    by simp_all
  let ?d2 = "case e of Some x \<Rightarrow> setErr d1 x | None \<Rightarrow> setOutput d1 outp"
  have d2: "inp ?d2 = inp d1" "etagOnce ?d2 = etagOnce d1" "etag ?d2 = etag d1"
    "calls ?d2 = calls d1"
    by (auto simp: setErr_def setOutput_def split: option.splits)
  have w: "worker_step cl j s = s\<lparr>dl := ?d2, workers := (workers s)[j := Receiving]\<rparr>"
    using Downloading r by (auto simp: worker_step_def split: option.splits)
  from assms(2) have k: "k \<le> length (calls (dl s))"
    and l: "list_all (\<lambda>r. pIfMatch r = if_match_after i tag) (drop k (calls (dl s)))"
    and ws: "list_all (\<lambda>w. case request_of w of None \<Rightarrow> True
                    | Some p \<Rightarrow> pIfMatch p = if_match_after i tag) (workers s)"
    and it: "inp (dl s) = i" "etag (dl s) = tag"
    by (simp_all add: log_inv_def)
  have A: "list_all (\<lambda>r. pIfMatch r = if_match_after i tag) (drop k (calls ?d2))"
    using k l p c d2(4) by (auto simp: list_all_iff)
  have B: "list_all (\<lambda>w. case request_of w of None \<Rightarrow> True
                    | Some p \<Rightarrow> pIfMatch p = if_match_after i tag) ((workers s)[j := Receiving])"
    by (rule list_all_update [OF ws]) (simp add: request_of_def)
  from A B k c f d2 it show ?thesis
    unfolding w by (simp add: log_inv_def)
next
  case Exited
  with assms(2) show ?thesis by (simp add: worker_step_def)
qed

lemma step_log:
  assumes "VersionID i = []" and "log_inv i k tag s"
  shows "log_inv i k tag (step cl a s)"
  using assms by (cases a) (auto simp: step_def producer_step_log worker_step_log)

lemma run_log:
  assumes "VersionID i = []" and "log_inv i k tag s"
  shows "log_inv i k tag (run cl sched s)"
  using assms(2)
proof (induction sched arbitrary: s)
  case Nil
  then show ?case by simp
next
  case (Cons a as)
  from step_log [OF assms(1) Cons.prems] Cons.IH show ?case by simp
qed

lemma finalize_log:
  "finalize d = (dF, oc) \<Longrightarrow> calls dF = calls d \<and> etag dF = etag d \<and> etagOnce dF = etagOnce d"
  by (auto simp: finalize_def Let_def split: option.splits)

lemma start_pool_in_flight: "in_flight (start_pool d p tot psz pc) = 0"
  by (simp add: in_flight_def start_pool_def downloading_def)

lemma fanOut_log:
  assumes "VersionID (inp d1) = []" and "err d1 \<noteq> None \<or> etagOnce d1"
    and "fanOut cl sched d1 p tot psz pc = (dF, oc)"
  shows "\<exists>more. calls dF = calls d1 @ more \<and> etag dF = etag d1 \<and>
           list_all (\<lambda>r. pIfMatch r = if_match_after (inp d1) (etag d1)) more \<and>
           (more \<noteq> [] \<longrightarrow> etagOnce d1)"
proof (cases "Concurrency (options d1) < 0")
  case True
  with assms(3) show ?thesis by (simp add: fanOut_def)
next
  case False
  let ?start = "start_pool d1 p tot psz pc"
  let ?s = "run cl sched ?start"
  have "log_inv (inp d1) (length (calls d1)) (etag d1) ?start"
    using assms(2)
    by (auto simp: log_inv_def start_pool_def request_of_def downloading_def list_all_iff)
  from run_log [OF assms(1) this, of cl sched]
  have inv: "log_inv (inp d1) (length (calls d1)) (etag d1) ?s" .
  from run_calls_prefix [of cl sched ?start] obtain more where
    m: "calls (dl ?s) = calls d1 @ more" by (auto simp: start_pool_def)
  from inv m have 1: "etag (dl ?s) = etag d1"
    and 2: "list_all (\<lambda>r. pIfMatch r = if_match_after (inp d1) (etag d1)) more"
    by (auto simp: log_inv_def)
  have 3: "more \<noteq> [] \<longrightarrow> etagOnce d1"
  proof (rule ccontr)
    assume "\<not> (more \<noteq> [] \<longrightarrow> etagOnce d1)"
    then have ne: "more \<noteq> []" and "\<not> etagOnce d1" by simp_all
    with assms(2) have "err (dl ?start) \<noteq> None" by (simp add: start_pool_def)
    from run_after_error [OF this, of cl sched]
    have "length (calls (dl ?s)) \<le> length (calls (dl ?start))"
      by (simp add: start_pool_in_flight)
    with m ne show False by (simp add: start_pool_def)
  qed
  from assms(3) False have "(dF, oc) = finalize (dl ?s) \<or> dF = dl ?s"
    by (auto simp: fanOut_def Let_def split: if_splits)
  with finalize_log [of "dl ?s" dF oc]
  have "calls dF = calls (dl ?s) \<and> etag dF = etag (dl ?s) \<and> etagOnce dF = etagOnce (dl ?s)"
    by auto
  with m 1 2 3 show ?thesis by auto
qed

lemma getChunk_log:
  assumes "getChunk cl d prt rng = (d1, g)"
  shows "inp d1 = inp d \<and> (etagOnce d \<longrightarrow> etag d1 = etag d) \<and>
         (\<exists>m. calls d1 = calls d @ replicate m
                  (chunkParams d \<lparr> start = pos d - offset d, cur = 0, part = prt,
                                   withRange = rng \<rparr>)) \<and>
         (case g of Inl q \<Rightarrow> True | Inr outp \<Rightarrow> err d1 \<noteq> None \<or> etagOnce d1)"
proof -
  let ?c = "\<lparr> start = pos d - offset d, cur = 0, part = prt, withRange = rng \<rparr>"
  obtain d0 outp e where r: "downloadChunkWith cl d ?c (chunkParams d ?c) = (d0, outp, e)"
    by (metis prod_cases3)
  from dcw_calls [OF r] obtain m where c: "calls d0 = calls d @ replicate m (chunkParams d ?c)"
    by blast
  from dcw_frame(2,8,9) [OF r] assms r c show ?thesis
    by (auto simp: getChunk_def downloadChunk_def Let_def setErr_def setOutput_def
             split: option.splits if_splits)
qed

lemma singleDownload_log:
  assumes "singleDownload cl d = (d1, oc)"
  shows "\<exists>m. calls d1 = calls d @ replicate m
                  (chunkParams d \<lparr> start = 0, cur = 0, part = 0, withRange = [] \<rparr>)"
proof -
  let ?c = "\<lparr> start = 0, cur = 0, part = 0, withRange = [] \<rparr>"
  obtain d0 outp e where r: "downloadChunkWith cl d ?c (chunkParams d ?c) = (d0, outp, e)"
    by (metis prod_cases3)
  from dcw_calls [OF r] assms r show ?thesis
    by (auto simp: singleDownload_def downloadChunk_def Let_def split: option.splits)
qed

lemma after_probe_log:
  assumes v: "VersionID (inp d) = []" and t: "etag d = []" and c: "calls d = []"
    and g: "getChunk cl d prt rng = (d1, g)"
    and f: "dF = d1 \<or>
            (\<exists>outp p tot psz pc oc. g = Inr outp \<and> fanOut cl sched d1 p tot psz pc = (dF, oc)) \<or>
            (\<exists>oc. finalize d1 = (dF, oc))"
  shows "list_all (\<lambda>r. pIfMatch r = nzstring (IfMatch (inp d))) (calls d1) \<and>
         (\<exists>after. calls dF = calls d1 @ after \<and>
            list_all (\<lambda>r. pIfMatch r =
              (if etag dF = [] then nzstring (IfMatch (inp d)) else Some (etag dF))) after \<and>
            (after \<noteq> [] \<longrightarrow> etagOnce d1 \<and> etag dF = etag d1))"
proof -
  let ?P = "chunkParams d \<lparr> start = pos d - offset d, cur = 0, part = prt, withRange = rng \<rparr>"
  from getChunk_log [OF g] c obtain m where i1: "inp d1 = inp d"
    and c1: "calls d1 = replicate m ?P"
    and p1: "case g of Inl q \<Rightarrow> True | Inr outp \<Rightarrow> err d1 \<noteq> None \<or> etagOnce d1"
    by auto
  have "pIfMatch ?P = nzstring (IfMatch (inp d))"
    using chunkParams_if_match [OF v] t by (simp add: if_match_after_def)
  with c1 have b: "list_all (\<lambda>r. pIfMatch r = nzstring (IfMatch (inp d))) (calls d1)"
    by (simp add: list_all_iff)
  from f consider (same) "calls dF = calls d1"
    | (fan) outp p tot psz pc oc where "g = Inr outp" "fanOut cl sched d1 p tot psz pc = (dF, oc)"
    using finalize_log by blast
  then have "\<exists>after. calls dF = calls d1 @ after \<and>
            list_all (\<lambda>r. pIfMatch r =
              (if etag dF = [] then nzstring (IfMatch (inp d)) else Some (etag dF))) after \<and>
            (after \<noteq> [] \<longrightarrow> etagOnce d1 \<and> etag dF = etag d1)"
  proof cases
    case same
    then show ?thesis by (rule_tac x = "[]" in exI) simp
  next
    case fan
    with p1 have "err d1 \<noteq> None \<or> etagOnce d1" by simp
    from fanOut_log [OF _ this fan(2)] v i1 obtain more where
      "calls dF = calls d1 @ more" "etag dF = etag d1"
      "list_all (\<lambda>r. pIfMatch r = if_match_after (inp d) (etag d1)) more"
      "more \<noteq> [] \<longrightarrow> etagOnce d1"
      by auto
    then show ?thesis
      by (rule_tac x = more in exI) (cases "etag d1 = []"; simp add: if_match_after_def)
  qed
  with b show ?thesis by simp
qed

text \<open>
  C10. A request built for an input without version from a downloader whose tag is
  not empty carries that tag as its \<^verbatim>\<open>IfMatch\<close>, whatever the caller gave. And in every
  download of such an input, under every schedule, the log of requests is the log of
  the first chunk followed by the requests of the workers. The first chunk starts with
  no tag captured and its requests carry the caller's \<^verbatim>\<open>IfMatch\<close> (none if the caller
  gave none). A worker sends a request only if the first chunk has captured the tag,
  that tag is the one the download ends with, and the request carries it in place of
  the caller's value when it is not empty. A download of a single chunk (a part number,
  or a range in part mode) sends the caller's \<^verbatim>\<open>IfMatch\<close> in every request.
\<close>

theorem caller_if_match_replaced_after_capture:
  assumes "VersionID i = []" and "init mp (new_downloader opts i) = Inr d"
    and "download cl mp sched opts i = (dF, oc)"
  shows "(inp dx = i \<and> etag dx \<noteq> [] \<longrightarrow> pIfMatch (chunkParams dx c) = Some (etag dx)) \<and>
         (0 <s PartNumber i \<or> (GetObjectType opts = GetObjectParts \<and> Range i \<noteq> []) \<longrightarrow>
            list_all (\<lambda>r. pIfMatch r = nzstring (IfMatch i)) (calls dF)) \<and>
         (\<not> 0 <s PartNumber i \<and> GetObjectType opts \<noteq> GetObjectParts \<and> rangeStart d = Inr d0 \<longrightarrow>
            \<not> etagOnce d0 \<and>
            list_all (\<lambda>r. pIfMatch r = nzstring (IfMatch i))
              (calls (fst (getChunk cl d0 0 (byteRange d0)))) \<and>
            (\<exists>after. calls dF = calls (fst (getChunk cl d0 0 (byteRange d0))) @ after \<and>
               list_all (\<lambda>r. pIfMatch r =
                 (if etag dF = [] then nzstring (IfMatch i) else Some (etag dF))) after \<and>
               (after \<noteq> [] \<longrightarrow>
                  etagOnce (fst (getChunk cl d0 0 (byteRange d0))) \<and>
                  etag dF = etag (fst (getChunk cl d0 0 (byteRange d0)))))) \<and>
         (\<not> 0 <s PartNumber i \<and> GetObjectType opts = GetObjectParts \<and> Range i = [] \<longrightarrow>
            \<not> etagOnce d \<and>
            list_all (\<lambda>r. pIfMatch r = nzstring (IfMatch i)) (calls (fst (getChunk cl d 1 []))) \<and>
            (\<exists>after. calls dF = calls (fst (getChunk cl d 1 [])) @ after \<and>
               list_all (\<lambda>r. pIfMatch r =
                 (if etag dF = [] then nzstring (IfMatch i) else Some (etag dF))) after \<and>
               (after \<noteq> [] \<longrightarrow>
                  etagOnce (fst (getChunk cl d 1 [])) \<and>
                  etag dF = etag (fst (getChunk cl d 1 [])))))"
proof (intro conjI impI)
  have d: "inp d = i" "calls d = []" "etag d = []" "\<not> etagOnce d" "options d = opts"
    using assms(2) by (auto simp: init_def new_downloader_def split: if_splits)
  with assms(1) have v: "VersionID (inp d) = []" by simp
  {
    assume "inp dx = i \<and> etag dx \<noteq> []"
    with assms(1) chunkParams_if_match [of dx c]
    show "pIfMatch (chunkParams dx c) = Some (etag dx)"
      by (simp add: if_match_after_def)
  }
  {
    assume a: "0 <s PartNumber i \<or> (GetObjectType opts = GetObjectParts \<and> Range i \<noteq> [])"
    have s: "singleDownload cl d = (dF, oc)"
    proof (cases "0 <s PartNumber i")
      case True
      with assms(2,3) d show ?thesis by (simp add: download_def)
    next
      case False
      with a assms(2,3) d show ?thesis by (simp add: download_def download_parts_def)
    qed
    let ?P = "chunkParams d \<lparr> start = 0, cur = 0, part = 0, withRange = [] \<rparr>"
    from singleDownload_log [OF s] d obtain m where "calls dF = replicate m ?P" by auto
    moreover have "pIfMatch ?P = nzstring (IfMatch i)"
      using chunkParams_if_match [OF v] d by (simp add: if_match_after_def)
    ultimately show "list_all (\<lambda>r. pIfMatch r = nzstring (IfMatch i)) (calls dF)"
      by (simp add: list_all_iff)
  }
  {
    assume a: "\<not> 0 <s PartNumber i \<and> GetObjectType opts \<noteq> GetObjectParts \<and> rangeStart d = Inr d0"
    with assms(2,3) d have dr: "download_ranges cl sched d = (dF, oc)"
      by (simp add: download_def)
    from a have d0: "inp d0 = i" "calls d0 = []" "etag d0 = []" "\<not> etagOnce d0"
      using d by (auto simp: rangeStart_def getDownloadRange_def Let_def
                       split: if_splits sum.splits)
    with assms(1) have v0: "VersionID (inp d0) = []" by simp
    obtain d1 g where g: "getChunk cl d0 0 (byteRange d0) = (d1, g)" by (metis surj_pair)
    from dr a g
    have "dF = d1 \<or>
        (\<exists>outp p tot psz pc oc. g = Inr outp \<and> fanOut cl sched d1 p tot psz pc = (dF, oc)) \<or>
        (\<exists>oc. finalize d1 = (dF, oc))"
      by (auto simp: download_ranges_def split: sum.splits)
    note L = after_probe_log [OF v0 d0(3) d0(2) g this, unfolded d0(1)]
    have fg: "fst (getChunk cl d0 0 (byteRange d0)) = d1" using g by simp
    from d0 show "\<not> etagOnce d0" by simp
    from L show "list_all (\<lambda>r. pIfMatch r = nzstring (IfMatch i))
              (calls (fst (getChunk cl d0 0 (byteRange d0))))"
      unfolding fg by (rule conjunct1)
    from L show "\<exists>after. calls dF = calls (fst (getChunk cl d0 0 (byteRange d0))) @ after \<and>
               list_all (\<lambda>r. pIfMatch r =
                 (if etag dF = [] then nzstring (IfMatch i) else Some (etag dF))) after \<and>
               (after \<noteq> [] \<longrightarrow>
                  etagOnce (fst (getChunk cl d0 0 (byteRange d0))) \<and>
                  etag dF = etag (fst (getChunk cl d0 0 (byteRange d0))))"
      unfolding fg by (rule conjunct2)
  }
  {
    assume a: "\<not> 0 <s PartNumber i \<and> GetObjectType opts = GetObjectParts \<and> Range i = []"
    with assms(2,3) d have dp: "download_parts cl sched d = (dF, oc)"
      by (simp add: download_def)
    obtain d1 g where g: "getChunk cl d 1 [] = (d1, g)" by (metis surj_pair)
    from dp a d g
    have "dF = d1 \<or>
        (\<exists>outp p tot psz pc oc. g = Inr outp \<and> fanOut cl sched d1 p tot psz pc = (dF, oc)) \<or>
        (\<exists>oc. finalize d1 = (dF, oc))"
      by (auto simp: download_parts_def split: sum.splits option.splits if_splits)
    note L = after_probe_log [OF v d(3) d(2) g this, unfolded d(1)]
    have fg: "fst (getChunk cl d 1 []) = d1" using g by simp
    from d show "\<not> etagOnce d" by simp
    from L show "list_all (\<lambda>r. pIfMatch r = nzstring (IfMatch i)) (calls (fst (getChunk cl d 1 [])))"
      unfolding fg by (rule conjunct1)
    from L show "\<exists>after. calls dF = calls (fst (getChunk cl d 1 [])) @ after \<and>
               list_all (\<lambda>r. pIfMatch r =
                 (if etag dF = [] then nzstring (IfMatch i) else Some (etag dF))) after \<and>
               (after \<noteq> [] \<longrightarrow>
                  etagOnce (fst (getChunk cl d 1 [])) \<and>
                  etag dF = etag (fst (getChunk cl d 1 [])))"
      unfolding fg by (rule conjunct2)
  }
qed

text \<open>
  The theorem on an object of two chunks with the tag \<open>etag-1\<close> and a caller who asks
  for \<open>caller-tag\<close>: the request of the first chunk carries \<open>caller-tag\<close>; the first
  chunk captures \<open>etag-1\<close>; the request that follows in the log, built by a worker for
  the second chunk, carries \<open>etag-1\<close>. And on a download of part 3, whose only request
  carries \<open>caller-tag\<close>.
\<close>

theorem caller_if_match_replaced_after_capture_witness:
  "map pIfMatch (calls (fst (download ex_client_tagged 5242880 ex_sched_two_chunks ex_options
                               (ex_input\<lparr>IfMatch := ''caller-tag''\<rparr>))))
     = [Some ''caller-tag'', Some ''etag-1''] \<and>
   map pIfMatch
     (calls (fst (getChunk ex_client_tagged
                    ((new_downloader ex_options (ex_input\<lparr>IfMatch := ''caller-tag''\<rparr>))
                       \<lparr>totalBytes := - 1\<rparr>) 0 ''bytes=0-8388607'')))
     = [Some ''caller-tag''] \<and>
   (\<exists>after.
      calls (fst (download ex_client_tagged 5242880 ex_sched_two_chunks ex_options
                    (ex_input\<lparr>IfMatch := ''caller-tag''\<rparr>)))
        = calls (fst (getChunk ex_client_tagged
                        ((new_downloader ex_options (ex_input\<lparr>IfMatch := ''caller-tag''\<rparr>))
                           \<lparr>totalBytes := - 1\<rparr>) 0 ''bytes=0-8388607'')) @ after \<and>
      after \<noteq> [] \<and>
      list_all (\<lambda>r. pIfMatch r = Some ''etag-1'') after) \<and>
   etagOnce (fst (getChunk ex_client_tagged
                    ((new_downloader ex_options (ex_input\<lparr>IfMatch := ''caller-tag''\<rparr>))
                       \<lparr>totalBytes := - 1\<rparr>) 0 ''bytes=0-8388607'')) \<and>
   pIfMatch (chunkParams
               (fst (getChunk ex_client_tagged
                       ((new_downloader ex_options (ex_input\<lparr>IfMatch := ''caller-tag''\<rparr>))
                          \<lparr>totalBytes := - 1\<rparr>) 0 ''bytes=0-8388607''))
               \<lparr>start = 8388608, cur = 0, part = 0, withRange = ''bytes=8388608-16777215''\<rparr>)
     = Some ''etag-1'' \<and>
   map pIfMatch (calls (fst (download ex_client_tagged 5242880 [] ex_options
                               (ex_input\<lparr>IfMatch := ''caller-tag'', PartNumber := 3\<rparr>))))
     = [Some ''caller-tag''] \<and>
   list_all (\<lambda>r. pIfMatch r = Some ''caller-tag'')
     (calls (fst (download ex_client_tagged 5242880 [] ex_options
                    (ex_input\<lparr>IfMatch := ''caller-tag'', PartNumber := 3\<rparr>))))"
proof -
  let ?i = "ex_input\<lparr>IfMatch := ''caller-tag''\<rparr>"
  let ?d = "(new_downloader ex_options ?i)\<lparr>totalBytes := - 1\<rparr>"
  let ?D = "download ex_client_tagged 5242880 ex_sched_two_chunks ex_options ?i"
  let ?pr = "getChunk ex_client_tagged ?d 0 ''bytes=0-8388607''"
  let ?c = "\<lparr>start = 8388608, cur = 0, part = 0, withRange = ''bytes=8388608-16777215''\<rparr>"
  have v: "VersionID ?i = []" by (simp add: ex_input_def)
  have i1: "init 5242880 (new_downloader ex_options ?i) = Inr ?d" by (simp add: eval_defs)
  have D: "?D = (fst ?D, snd ?D)" by simp
  have m: "map pIfMatch (calls (fst ?D)) = [Some ''caller-tag'', Some ''etag-1'']"
    and t: "etag (fst ?D) = ''etag-1''"
    by (simp_all add: eval_defs float64_exact ex_client_tagged_def ex_probe_response_def
          ex_sched_two_chunks_def)
  have n: "nzstring (IfMatch ?i) = Some ''caller-tag''" by (simp add: nzstring_def)
  have a: "\<not> 0 <s PartNumber ?i \<and> GetObjectType ex_options \<noteq> GetObjectParts \<and>
           rangeStart ?d = Inr ?d"
    by (simp add: eval_defs word_sless_alt)
  have b: "byteRange ?d = ''bytes=0-8388607''" by (simp add: eval_defs)
  have mp: "map pIfMatch (calls (fst ?pr)) = [Some ''caller-tag'']"
    and ip: "inp (fst ?pr) = ?i" and tp: "etag (fst ?pr) = ''etag-1''"
    by (simp_all add: eval_defs ex_client_tagged_def ex_probe_response_def)
  note T = caller_if_match_replaced_after_capture [OF v i1 D, where ?d0.0 = ?d
             and dx = "fst ?pr" and c = ?c]
  from T a b obtain after where af: "calls (fst ?D) = calls (fst ?pr) @ after"
    "list_all (\<lambda>r. pIfMatch r =
        (if etag (fst ?D) = [] then nzstring (IfMatch ?i) else Some (etag (fst ?D)))) after"
    "after \<noteq> [] \<longrightarrow> etagOnce (fst ?pr) \<and> etag (fst ?D) = etag (fst ?pr)"
    by auto
  from af(1) m mp have ne: "after \<noteq> []" by (cases after) auto
  with af(3) have once: "etagOnce (fst ?pr)" by simp
  from af(1,2) ne t have A: "\<exists>after. calls (fst ?D) = calls (fst ?pr) @ after \<and> after \<noteq> [] \<and>
      list_all (\<lambda>r. pIfMatch r = Some ''etag-1'') after"
    by auto
  from T ip tp have B: "pIfMatch (chunkParams (fst ?pr) ?c) = Some ''etag-1''" by simp
  let ?j = "ex_input\<lparr>IfMatch := ''caller-tag'', PartNumber := 3\<rparr>"
  let ?e = "(new_downloader ex_options ?j)\<lparr>totalBytes := - 1\<rparr>"
  let ?S = "download ex_client_tagged 5242880 [] ex_options ?j"
  have vj: "VersionID ?j = []" by (simp add: ex_input_def)
  have ij: "init 5242880 (new_downloader ex_options ?j) = Inr ?e" by (simp add: eval_defs)
  have S: "?S = (fst ?S, snd ?S)" by simp
  have pj: "0 <s PartNumber ?j" by (simp add: word_sless_alt)
  have nj: "nzstring (IfMatch ?j) = Some ''caller-tag''" by (simp add: nzstring_def)
  have ms: "map pIfMatch (calls (fst ?S)) = [Some ''caller-tag'']"
    by (simp add: eval_defs ex_client_tagged_def ex_probe_response_def word_sless_alt)
  from caller_if_match_replaced_after_capture [OF vj ij S] pj nj
  have C: "list_all (\<lambda>r. pIfMatch r = Some ''caller-tag'') (calls (fst ?S))" by simp
  from m mp A once B ms C show ?thesis by blast
qed

section \<open>The requests of a download for one part\<close>

text \<open>
  What the run for part 3 above shows holds for every input with a positive part
  number, every client and every schedule: no request of the download names a part or
  a range.
\<close>

lemma part_number_never_requested:
  assumes "0 <s PartNumber i" and "download cl mp sched opts i = (dF, oc)"
  shows "list_all (\<lambda>r. pPartNumber r = None \<and> pRange r = None) (calls dF)"
proof (cases "init mp (new_downloader opts i)")
  case (Inl x)
  with assms(2) show ?thesis by (auto simp: download_def new_downloader_def)
next
  case (Inr d)
  then have d: "inp d = i" "calls d = []"
    by (auto simp: init_def new_downloader_def split: if_splits)
  with assms Inr have "singleDownload cl d = (dF, oc)" by (simp add: download_def)
  from singleDownload_log [OF this] d obtain m where
    "calls dF = replicate m (chunkParams d \<lparr> start = 0, cur = 0, part = 0, withRange = [] \<rparr>)"
    by auto
  then show ?thesis
    by (simp add: list_all_iff chunkParams_def Let_def mapGetObjectInput_def)
qed

end
